theory Spec2Isabelle
  imports Complex_Main "HOL-Library.Log_Nat"
begin

section \<open>The payment form: coupling of payment status and payment mode\<close>

text \<open>
  \<^verbatim>\<open>static/app.js\<close> is present in two script versions. Both end their
  \<^verbatim>\<open>DOMContentLoaded\<close> handler with a coupling rule between the two selects
  \<^verbatim>\<open>payStatus\<close> and \<^verbatim>\<open>payMode\<close>: a local function \<^verbatim>\<open>sync\<close>, registered
  for the \<^verbatim>\<open>change\<close> event of the status select and called once right away.

  A select is modelled by the two properties the rule reads and writes. Assigning to
  \<^verbatim>\<open>value\<close> is taken to store the assigned string (the first version assigns
  \<^verbatim>\<open>'Pending'\<close> and \<^verbatim>\<open>'UPI'\<close>, which its mode select is taken to offer; the
  empty string assigned by the second version reads back as the empty string on every
  select).
\<close>

record select_el =
  sel_value :: string
  disabled :: bool

record form =
  statusSel :: select_el
  modeSel :: select_el

text \<open>
  First script version:
  \<^verbatim>\<open>
  function sync() {
    if (statusSel.value === 'Pending') { modeSel.value = 'Pending'; modeSel.disabled = true; }
    else { if (modeSel.value==='Pending') modeSel.value='UPI'; modeSel.disabled = false; }
  }
  \<close>
\<close>

definition sync_v1 :: "form \<Rightarrow> form" where
  "sync_v1 f =
     (if sel_value (statusSel f) = ''Pending''
      then f\<lparr>modeSel := (modeSel f)\<lparr>sel_value := ''Pending'', disabled := True\<rparr>\<rparr>
      else
        (let m = (if sel_value (modeSel f) = ''Pending''
                  then (modeSel f)\<lparr>sel_value := ''UPI''\<rparr>
                  else modeSel f)
         in f\<lparr>modeSel := m\<lparr>disabled := False\<rparr>\<rparr>))"

text \<open>
  Second script version (``enable mode only if Paid''):
  \<^verbatim>\<open>
  function sync() {
    if (statusSel.value === 'Paid') {
      modeSel.disabled = false;
    } else {
      modeSel.value = "";
      modeSel.disabled = true;
    }
  }
  \<close>
\<close>

definition sync_v2 :: "form \<Rightarrow> form" where
  "sync_v2 f =
     (if sel_value (statusSel f) = ''Paid''
      then f\<lparr>modeSel := (modeSel f)\<lparr>disabled := False\<rparr>\<rparr>
      else f\<lparr>modeSel := (modeSel f)\<lparr>sel_value := '''', disabled := True\<rparr>\<rparr>)"

datatype script = First_version | Second_version

fun sync :: "script \<Rightarrow> form \<Rightarrow> form" where
  "sync First_version f = sync_v1 f"
| "sync Second_version f = sync_v2 f"

text \<open>
  The surrounding code, the same in both versions:
  \<^verbatim>\<open>
  const statusSel = document.getElementById('payStatus');
  const modeSel = document.getElementById('payMode');
  if (statusSel && modeSel) {
    function sync() { ... }
    statusSel.addEventListener('change', sync);
    sync();
  }
  \<close>
  \<^verbatim>\<open>getElementById\<close> yields \<^verbatim>\<open>null\<close> for a missing element (\<open>None\<close>). The
  result of loading is the form with the rule installed, or \<open>None\<close> when the guard
  fails and nothing is installed.
\<close>

definition on_load :: "script \<Rightarrow> select_el option \<Rightarrow> select_el option \<Rightarrow> form option" where
  "on_load v payStatus payMode =
     (case payStatus of
        None \<Rightarrow> None
      | Some s \<Rightarrow>
          (case payMode of
             None \<Rightarrow> None
           | Some m \<Rightarrow> Some (sync v \<lparr>statusSel = s, modeSel = m\<rparr>)))"

text \<open>
  A change event on the status select: the browser has stored the chosen value in
  \<^verbatim>\<open>statusSel.value\<close>, then the registered listener \<^verbatim>\<open>sync\<close> runs.
\<close>

definition on_change :: "script \<Rightarrow> string \<Rightarrow> form \<Rightarrow> form" where
  "on_change v chosen f = sync v (f\<lparr>statusSel := (statusSel f)\<lparr>sel_value := chosen\<rparr>\<rparr>)"

text \<open>The form after loading and a sequence of status changes, oldest first.\<close>

definition after_events :: "script \<Rightarrow> form \<Rightarrow> string list \<Rightarrow> form" where
  "after_events v f chosen = foldl (\<lambda>g c. on_change v c g) (sync v f) chosen"

section \<open>The chart adapter: percentages on the pie and the donut\<close>

text \<open>
  The second script version annotates the pie (\<^verbatim>\<open>typeChart\<close>) and the donut
  (\<^verbatim>\<open>donut\<close>) with each slice's percentage of the total. The donut takes the shared
  options \<^verbatim>\<open>percentOpts\<close> (an on-slice label formatter and a tooltip callback); the
  pie hides the on-slice labels (\<^verbatim>\<open>datalabels: { display: false }\<close>) and brings a
  legend generator and a tooltip callback of its own.
\<close>

subsection \<open>JavaScript numbers\<close>

text \<open>
  A JavaScript number is an IEEE 754 double: a finite value, an infinity or
  \<^verbatim>\<open>NaN\<close>. A finite value is modelled by the rational it denotes. Negative zero is
  identified with zero; the two differ only in the sign of a quotient by zero, which the
  adapter never forms, and in the rendering of a negative value that rounds to zero.
\<close>

datatype number = Fin rat | PInf | NInf | NaN

text \<open>
  Rounding of an exact result to the nearest double, ties to the even significand.
  \<open>binade x\<close> is the exponent \<open>e\<close> with \<open>2\<^sup>e \<le> \<bar>x\<bar> < 2\<^sup>e\<^sup>+\<^sup>1\<close>; the spacing of the
  doubles there is \<open>2\<^sup>e\<^sup>-\<^sup>5\<^sup>2\<close>, and \<open>2\<^sup>-\<^sup>1\<^sup>0\<^sup>7\<^sup>4\<close> below \<open>2\<^sup>-\<^sup>1\<^sup>0\<^sup>2\<^sup>2\<close>; a result that rounds
  to \<open>2\<^sup>1\<^sup>0\<^sup>2\<^sup>4\<close> or more in magnitude (the significand \<open>n\<close> reaches \<open>2\<^sup>5\<^sup>3\<close> at the
  exponent 1023, or the exponent is larger) is an infinity.
\<close>

definition binade :: "rat \<Rightarrow> int" where
  "binade x =
     (let p = fst (quotient_of \<bar>x\<bar>); q = snd (quotient_of \<bar>x\<bar>);
          e0 = bitlen p - bitlen q
      in if 2 powi e0 \<le> \<bar>x\<bar> then e0 else e0 - 1)"

definition round_half_even :: "rat \<Rightarrow> int" where
  "round_half_even y =
     (let n = \<lfloor>y\<rfloor>; r = y - of_int n
      in if r < 1 / 2 then n
         else if 1 / 2 < r then n + 1
         else if even n then n else n + 1)"

definition infinity :: "bool \<Rightarrow> number" where
  "infinity neg = (if neg then NInf else PInf)"

definition fl :: "rat \<Rightarrow> number" where
  "fl x =
     (if x = 0 then Fin 0
      else
        (let e = max (binade x) (- 1022);
             q = 2 powi (e - 52);
             n = round_half_even (\<bar>x\<bar> / q)
         in if 1023 < e \<or> (e = 1023 \<and> 2 ^ 53 \<le> n) then infinity (x < 0)
            else Fin ((if x < 0 then - 1 else 1) * of_int n * q)))"

text \<open>
  A rational is a double when rounding leaves it unchanged. In the normal range
  rounding changes a number by at most the fraction \<open>2\<^sup>-\<^sup>5\<^sup>3\<close> of itself.
\<close>

definition is_double :: "rat \<Rightarrow> bool" where
  "is_double x = (fl x = Fin x)"

definition unit_roundoff :: rat where
  "unit_roundoff = 1 / 2 ^ 53"

text \<open>
  The operators \<^verbatim>\<open>+\<close>, \<^verbatim>\<open>*\<close> and \<^verbatim>\<open>/\<close>: on finite operands the exact result,
  rounded; otherwise the special cases of IEEE 754.
\<close>

definition negative :: "number \<Rightarrow> bool" where
  "negative a = (case a of Fin x \<Rightarrow> x < 0 | NInf \<Rightarrow> True | _ \<Rightarrow> False)"

fun num_add :: "number \<Rightarrow> number \<Rightarrow> number" where
  "num_add (Fin x) (Fin y) = fl (x + y)"
| "num_add NaN b = NaN"
| "num_add a NaN = NaN"
| "num_add PInf NInf = NaN"
| "num_add NInf PInf = NaN"
| "num_add (Fin x) b = b"
| "num_add a b = a"

fun num_mul :: "number \<Rightarrow> number \<Rightarrow> number" where
  "num_mul (Fin x) (Fin y) = fl (x * y)"
| "num_mul NaN b = NaN"
| "num_mul a NaN = NaN"
| "num_mul a b =
     (if a = Fin 0 \<or> b = Fin 0 then NaN else infinity (negative a \<noteq> negative b))"

fun num_div :: "number \<Rightarrow> number \<Rightarrow> number" where
  "num_div (Fin x) (Fin y) =
     (if y = 0 then (if x = 0 then NaN else infinity (x < 0)) else fl (x / y))"
| "num_div NaN b = NaN"
| "num_div a NaN = NaN"
| "num_div (Fin x) b = Fin 0"
| "num_div a (Fin y) = infinity (negative a \<noteq> (y < 0))"
| "num_div a b = NaN"

text \<open>
  A number as a condition (\<^verbatim>\<open>total ? ... : ...\<close>) is false for zero and \<^verbatim>\<open>NaN\<close>;
  \<^verbatim>\<open>>=\<close> is false whenever an operand is \<^verbatim>\<open>NaN\<close>.
\<close>

definition truthy :: "number \<Rightarrow> bool" where
  "truthy a = (case a of Fin x \<Rightarrow> x \<noteq> 0 | NaN \<Rightarrow> False | _ \<Rightarrow> True)"

fun num_ge :: "number \<Rightarrow> number \<Rightarrow> bool" where
  "num_ge (Fin x) (Fin y) = (y \<le> x)"
| "num_ge NaN b = False"
| "num_ge a NaN = False"
| "num_ge PInf b = True"
| "num_ge a NInf = True"
| "num_ge a b = False"

definition isNaN :: "number \<Rightarrow> bool" where
  "isNaN a = (a = NaN)"

text \<open>
  JavaScript's \<^verbatim>\<open>/\<close> does not raise on a zero divisor, it yields an infinity or
  \<^verbatim>\<open>NaN\<close> and goes on. So that a division by zero cannot pass unnoticed, the model
  records one as the error \<open>DivisionByZero\<close>; \<open>TypeError\<close> is what reading a
  property of \<^verbatim>\<open>undefined\<close> throws.
\<close>

datatype error = DivisionByZero | TypeError

definition divide_num :: "number \<Rightarrow> number \<Rightarrow> error + number" where
  "divide_num a b = (if b = Fin 0 then Inl DivisionByZero else Inr (num_div a b))"

subsection \<open>Numbers as text\<close>

text \<open>
  The conversion of a finite number to a string (\<^verbatim>\<open>ToString\<close>, applied by a template
  literal) prints the shortest decimal digits that read back as the same double. It is
  a parameter \<open>ns\<close> of every function that prints a number, and the results hold for
  every such conversion.
\<close>

type_synonym num_str = "rat \<Rightarrow> string"

definition num_text :: "num_str \<Rightarrow> number \<Rightarrow> string" where
  "num_text ns a =
     (case a of Fin x \<Rightarrow> ns x | PInf \<Rightarrow> ''Infinity'' | NInf \<Rightarrow> ''-Infinity'' | NaN \<Rightarrow> ''NaN'')"

text \<open>
  The local constant \<^verbatim>\<open>pct\<close> of the tooltip callbacks and of the legend generator
  holds either the string made by \<^verbatim>\<open>toFixed(1)\<close> or the number \<^verbatim>\<open>0\<close>.
\<close>

datatype js_value = Num number | Str string

fun to_string :: "num_str \<Rightarrow> js_value \<Rightarrow> string" where
  "to_string ns (Num a) = num_text ns a"
| "to_string ns (Str s) = s"

text \<open>Decimal digits of a natural number, without leading zeros.\<close>

definition digit_char :: "nat \<Rightarrow> char" where
  "digit_char d = char_of (48 + d)"

fun nat_str :: "nat \<Rightarrow> string" where
  "nat_str n =
     (if n < 10 then [digit_char n] else nat_str (n div 10) @ [digit_char (n mod 10)])"

declare nat_str.simps [simp del]

text \<open>
  \<^verbatim>\<open>Number.prototype.toFixed\<close> with one fraction digit, after ECMAScript: a number
  that is not finite is printed by \<^verbatim>\<open>ToString\<close>; the sign is split off; a magnitude
  of at least \<open>10\<^sup>2\<^sup>1\<close> is printed by \<^verbatim>\<open>ToString\<close>; otherwise \<open>n\<close> is the integer
  for which \<open>n / 10\<close> is nearest to the magnitude, the larger one on a tie, and the
  digits of \<open>n\<close> are printed with a point before the last.
\<close>

definition round_tenths :: "rat \<Rightarrow> nat" where
  "round_tenths y = nat \<lfloor>y * 10 + 1 / 2\<rfloor>"

definition toFixed1 :: "num_str \<Rightarrow> number \<Rightarrow> string" where
  "toFixed1 ns a =
     (case a of
        Fin x \<Rightarrow>
          (let s = (if x < 0 then ''-'' else '''');
               y = \<bar>x\<bar>;
               m = (if y \<ge> 10 ^ 21 then ns y
                    else (let n = round_tenths y
                          in nat_str (n div 10) @ ''.'' @ nat_str (n mod 10)))
           in s @ m)
      | _ \<Rightarrow> num_text ns a)"

text \<open>
  \<^verbatim>\<open>ToString\<close> on whole numbers of magnitude below \<open>10\<^sup>2\<^sup>1\<close> prints the decimal
  digits. This instance of the parameter \<open>ns\<close> serves to run the adapter on
  whole-number data; it is exact on whole numbers only.
\<close>

definition whole_str :: num_str where
  "whole_str x = (if x < 0 then ''-'' else '''') @ nat_str (nat \<lfloor>\<bar>x\<bar>\<rfloor>)"

text \<open>The em dash of the legend text (U+2014), as its UTF-8 bytes.\<close>

definition em_dash :: string where
  "em_dash = [char_of (226 :: nat), char_of (128 :: nat), char_of (148 :: nat)]"

subsection \<open>The on-slice labels\<close>

text \<open>
  All three callbacks start with
  \<^verbatim>\<open>const total = data.reduce((a, b) => a + b, 0);\<close>
\<close>

definition total_of :: "number list \<Rightarrow> number" where
  "total_of data = foldl num_add (Fin 0) data"

text \<open>
  The formatter of the shared options:
  \<^verbatim>\<open>
  formatter: (value, ctx) => {
    const data = ctx.chart.data.datasets[0].data || [];
    const total = data.reduce((a, b) => a + b, 0);
    const pct = total ? (value * 100 / total) : 0;
    // show for slices >= 3% (tweak if you want)
    return pct >= 3 ? pct.toFixed(1) + '%' : '';
  }
  \<close>
  The dataset's \<^verbatim>\<open>data\<close> is \<open>None\<close> when the property is missing. \<open>formatter_pct\<close>
  is the value of the local constant \<^verbatim>\<open>pct\<close>.
\<close>

definition formatter_pct :: "number \<Rightarrow> number list option \<Rightarrow> error + number" where
  "formatter_pct v dataset =
     (let data = (case dataset of None \<Rightarrow> [] | Some d \<Rightarrow> d);
          tot = total_of data
      in if truthy tot then divide_num (num_mul v (Fin 100)) tot else Inr (Fin 0))"

definition formatter :: "num_str \<Rightarrow> number \<Rightarrow> number list option \<Rightarrow> error + string" where
  "formatter ns v dataset =
     (case formatter_pct v dataset of
        Inl e \<Rightarrow> Inl e
      | Inr pct \<Rightarrow> Inr (if num_ge pct (Fin 3) then toFixed1 ns pct @ ''%'' else ''''))"

text \<open>
  The \<^verbatim>\<open>datalabels\<close> options of the two charts: the donut's are those of the shared
  options, with the formatter above; the pie's are
  \<^verbatim>\<open>datalabels: { display: false },   // hide on-slice labels\<close>.
  With \<^verbatim>\<open>display: false\<close> the plugin draws no label and calls no formatter
  (\<open>None\<close>); otherwise the label is the formatter's text.
\<close>

datatype datalabels = Display_false | Formatter

definition typeChart_datalabels :: datalabels where
  "typeChart_datalabels = Display_false"

definition donut_datalabels :: datalabels where
  "donut_datalabels = Formatter"

definition on_slice_label ::
  "num_str \<Rightarrow> datalabels \<Rightarrow> number \<Rightarrow> number list option \<Rightarrow> error + string option" where
  "on_slice_label ns opts v dataset =
     (case opts of
        Display_false \<Rightarrow> Inr None
      | Formatter \<Rightarrow>
          (case formatter ns v dataset of Inl e \<Rightarrow> Inl e | Inr s \<Rightarrow> Inr (Some s)))"

subsection \<open>The tooltip callbacks\<close>

text \<open>
  Both tooltip callbacks and the legend generator compute
  \<^verbatim>\<open>const pct = total ? (val*100/total).toFixed(1) : 0;\<close>
  (\<open>tot\<close> stands for the local constant \<^verbatim>\<open>total\<close>).
\<close>

definition fixed_pct :: "num_str \<Rightarrow> number \<Rightarrow> number \<Rightarrow> error + js_value" where
  "fixed_pct ns val tot =
     (if truthy tot
      then (case divide_num (num_mul val (Fin 100)) tot of
              Inl e \<Rightarrow> Inl e
            | Inr q \<Rightarrow> Inr (Str (toFixed1 ns q)))
      else Inr (Num (Fin 0)))"

text \<open>The tooltip item that Chart.js hands to a label callback.\<close>

record tooltip_item =
  label :: string
  parsed :: number
  dataset_data :: "number list option"

text \<open>
  The tooltip callback of the shared options (the donut):
  \<^verbatim>\<open>
  label: (context) => {
    const data = context.dataset.data || [];
    const total = data.reduce((a,b)=>a+b,0);
    const val = context.parsed;
    const pct = total ? (val*100/total).toFixed(1) : 0;
    return `${context.label}: ${val} (${pct}%)`;
  }
  \<close>
\<close>

definition percentOpts_tooltip_label :: "num_str \<Rightarrow> tooltip_item \<Rightarrow> error + string" where
  "percentOpts_tooltip_label ns item =
     (let data = (case dataset_data item of None \<Rightarrow> [] | Some d \<Rightarrow> d);
          tot = total_of data;
          val = parsed item
      in case fixed_pct ns val tot of
           Inl e \<Rightarrow> Inl e
         | Inr pct \<Rightarrow>
             Inr (label item @ '': '' @ num_text ns val @ '' ('' @ to_string ns pct @ ''%)''))"

text \<open>
  The pie's own tooltip callback; it reads \<^verbatim>\<open>ctx.dataset.data\<close> with no fallback,
  so a missing \<^verbatim>\<open>data\<close> makes \<^verbatim>\<open>data.reduce\<close> throw:
  \<^verbatim>\<open>
  label(ctx) {
    const data = ctx.dataset.data;
    const total = data.reduce((a,b)=>a+b,0);
    const val = ctx.parsed;
    const pct = total ? (val*100/total).toFixed(1) : 0;
    return `${ctx.label}: ${val} (${pct}%)`;
  }
  \<close>
\<close>

definition typeChart_tooltip_label :: "num_str \<Rightarrow> tooltip_item \<Rightarrow> error + string" where
  "typeChart_tooltip_label ns item =
     (case dataset_data item of
        None \<Rightarrow> Inl TypeError
      | Some data \<Rightarrow>
          (let tot = total_of data;
               val = parsed item
           in case fixed_pct ns val tot of
                Inl e \<Rightarrow> Inl e
              | Inr pct \<Rightarrow>
                  Inr (label item @ '': '' @ num_text ns val @ '' (''
                         @ to_string ns pct @ ''%)'')))"

subsection \<open>The legend generator of the pie\<close>

text \<open>
  \<^verbatim>\<open>
  generateLabels(chart) {
    const data = chart.data.datasets[0].data || [];
    const total = data.reduce((a,b)=>a+b,0);
    const meta = chart.getDatasetMeta(0);
    return chart.data.labels.map((label, i) => {
      const val = data[i] ?? 0;
      const pct = total ? (val*100/total).toFixed(1) : 0;
      const style = meta.controller.getStyle(i);
      return {
        text: `${label} -- ${pct}% (${val})`,
        fillStyle: style.backgroundColor,
        strokeStyle: style.borderColor,
        lineWidth: style.borderWidth,
        hidden: isNaN(val) || meta.data[i].hidden,
        index: i
      };
    });
  }
  \<close>
  (the two hyphens stand for the em dash of the source). The chart is modelled by what
  the generator reads: the labels, the first dataset's data, the elements
  \<^verbatim>\<open>meta.data\<close> that Chart.js keeps, one for each value, and the controller's
  \<^verbatim>\<open>getStyle\<close>. Unless the value is \<^verbatim>\<open>NaN\<close>, \<^verbatim>\<open>meta.data[i].hidden\<close> is read;
  where \<^verbatim>\<open>meta.data\<close> has no element \<open>i\<close>, reading \<^verbatim>\<open>hidden\<close> of
  \<^verbatim>\<open>undefined\<close> throws. The fields \<^verbatim>\<open>text\<close> and \<^verbatim>\<open>hidden\<close> of a legend item
  are named \<open>legend_text\<close> and \<open>item_hidden\<close>.
\<close>

record style =
  backgroundColor :: string
  borderColor :: string
  borderWidth :: rat

record arc_element =
  hidden :: bool

record legend_item =
  legend_text :: string
  fillStyle :: string
  strokeStyle :: string
  lineWidth :: rat
  item_hidden :: bool
  index :: nat

record chart =
  chart_labels :: "string list"
  chart_data :: "number list option"
  meta_data :: "arc_element list"
  getStyle :: "nat \<Rightarrow> style"

text \<open>The callback of \<^verbatim>\<open>map\<close>, for the pair of an index \<open>i\<close> and its label.\<close>

definition legend_entry ::
  "num_str \<Rightarrow> chart \<Rightarrow> number list \<Rightarrow> number \<Rightarrow> nat \<times> string \<Rightarrow> error + legend_item" where
  "legend_entry ns c data tot il =
     (let i = fst il; lbl = snd il;
          val = (if i < length data then data ! i else Fin 0)
      in case fixed_pct ns val tot of
           Inl e \<Rightarrow> Inl e
         | Inr pct \<Rightarrow>
             (let st = getStyle c i
              in if isNaN val \<or> i < length (meta_data c)
                 then Inr \<lparr>legend_text =
                             lbl @ '' '' @ em_dash @ '' '' @ to_string ns pct
                               @ ''% ('' @ num_text ns val @ '')'',
                           fillStyle = backgroundColor st,
                           strokeStyle = borderColor st,
                           lineWidth = borderWidth st,
                           item_hidden = (isNaN val \<or> hidden (meta_data c ! i)),
                           index = i\<rparr>
                 else Inl TypeError))"

text \<open>\<^verbatim>\<open>Array.prototype.map\<close> with a callback that may throw: the first error ends it.\<close>

fun map_results :: "('a \<Rightarrow> error + 'b) \<Rightarrow> 'a list \<Rightarrow> error + 'b list" where
  "map_results f [] = Inr []"
| "map_results f (x # xs) =
     (case f x of
        Inl e \<Rightarrow> Inl e
      | Inr y \<Rightarrow> (case map_results f xs of Inl e \<Rightarrow> Inl e | Inr ys \<Rightarrow> Inr (y # ys)))"

definition generateLabels :: "num_str \<Rightarrow> chart \<Rightarrow> error + legend_item list" where
  "generateLabels ns c =
     (let data = (case chart_data c of None \<Rightarrow> [] | Some d \<Rightarrow> d);
          tot = total_of data
      in map_results (legend_entry ns c data tot) (enumerate 0 (chart_labels c)))"

section \<open>Properties of the coupling rule\<close>

lemma sync_v1_status [simp]: "statusSel (sync_v1 f) = statusSel f"
  by (simp add: sync_v1_def Let_def)

lemma sync_v2_status [simp]: "statusSel (sync_v2 f) = statusSel f"
  by (simp add: sync_v2_def)

lemma sync_status [simp]: "statusSel (sync v f) = statusSel f"
  by (cases v) simp_all

lemma after_events_is_sync: "\<exists>g. after_events v f chosen = sync v g"
proof (cases chosen rule: rev_cases)
  case Nil
  then show ?thesis by (auto simp: after_events_def)
next
  case (snoc cs c)
  then show ?thesis by (auto simp: after_events_def on_change_def)
qed

lemma sync_v2_pending:
  "sel_value (statusSel g) \<noteq> ''Paid'' \<Longrightarrow>
   modeSel (sync_v2 g) = (modeSel g)\<lparr>sel_value := '''', disabled := True\<rparr>"
  by (simp add: sync_v2_def)

lemma sync_v1_pending:
  "sel_value (statusSel g) = ''Pending'' \<Longrightarrow>
   modeSel (sync_v1 g) = (modeSel g)\<lparr>sel_value := ''Pending'', disabled := True\<rparr>"
  by (simp add: sync_v1_def)

text \<open>
  Claim C1, as amended. The second script version's \<^verbatim>\<open>sync\<close> does what the claim
  says: status \<^verbatim>\<open>Paid\<close> leaves the mode select enabled with its selection kept, any
  other status leaves it with the empty value and disabled. The first script version's
  \<^verbatim>\<open>sync\<close> keys on \<^verbatim>\<open>Pending\<close> instead: status \<^verbatim>\<open>Pending\<close> sets the mode value
  to \<^verbatim>\<open>Pending\<close> and disables the select, any other status enables it and keeps the
  selection, except that a selected \<^verbatim>\<open>Pending\<close> is replaced by \<^verbatim>\<open>UPI\<close>. Neither
  touches the status select.
\<close>

theorem sync_transition_rule:
  "(sel_value (statusSel f) = ''Paid'' \<longrightarrow>
      sync_v2 f = f\<lparr>modeSel := (modeSel f)\<lparr>disabled := False\<rparr>\<rparr>) \<and>
   (sel_value (statusSel f) \<noteq> ''Paid'' \<longrightarrow>
      sync_v2 f = f\<lparr>modeSel := (modeSel f)\<lparr>sel_value := '''', disabled := True\<rparr>\<rparr>) \<and>
   (sel_value (statusSel f) = ''Pending'' \<longrightarrow>
      sync_v1 f = f\<lparr>modeSel := (modeSel f)\<lparr>sel_value := ''Pending'', disabled := True\<rparr>\<rparr>) \<and>
   (sel_value (statusSel f) \<noteq> ''Pending'' \<longrightarrow>
      sync_v1 f =
        f\<lparr>modeSel := (modeSel f)
            \<lparr>sel_value := (if sel_value (modeSel f) = ''Pending'' then ''UPI''
                           else sel_value (modeSel f)),
             disabled := False\<rparr>\<rparr>)"
  by (simp add: sync_v1_def sync_v2_def Let_def)

theorem sync_transition_rule_witness:
  "sync_v2 \<lparr>statusSel = \<lparr>sel_value = ''Paid'', disabled = False\<rparr>,
            modeSel = \<lparr>sel_value = ''Cash'', disabled = True\<rparr>\<rparr>
     = \<lparr>statusSel = \<lparr>sel_value = ''Paid'', disabled = False\<rparr>,
        modeSel = \<lparr>sel_value = ''Cash'', disabled = False\<rparr>\<rparr> \<and>
   sync_v2 \<lparr>statusSel = \<lparr>sel_value = ''Pending'', disabled = False\<rparr>,
            modeSel = \<lparr>sel_value = ''Cash'', disabled = False\<rparr>\<rparr>
     = \<lparr>statusSel = \<lparr>sel_value = ''Pending'', disabled = False\<rparr>,
        modeSel = \<lparr>sel_value = '''', disabled = True\<rparr>\<rparr> \<and>
   sync_v1 \<lparr>statusSel = \<lparr>sel_value = ''Pending'', disabled = False\<rparr>,
            modeSel = \<lparr>sel_value = ''Cash'', disabled = False\<rparr>\<rparr>
     = \<lparr>statusSel = \<lparr>sel_value = ''Pending'', disabled = False\<rparr>,
        modeSel = \<lparr>sel_value = ''Pending'', disabled = True\<rparr>\<rparr> \<and>
   sync_v1 \<lparr>statusSel = \<lparr>sel_value = ''Paid'', disabled = False\<rparr>,
            modeSel = \<lparr>sel_value = ''Pending'', disabled = True\<rparr>\<rparr>
     = \<lparr>statusSel = \<lparr>sel_value = ''Paid'', disabled = False\<rparr>,
        modeSel = \<lparr>sel_value = ''UPI'', disabled = False\<rparr>\<rparr>"
  using
    sync_transition_rule [of "\<lparr>statusSel = \<lparr>sel_value = ''Paid'', disabled = False\<rparr>,
                              modeSel = \<lparr>sel_value = ''Cash'', disabled = True\<rparr>\<rparr>"]
    sync_transition_rule [of "\<lparr>statusSel = \<lparr>sel_value = ''Pending'', disabled = False\<rparr>,
                              modeSel = \<lparr>sel_value = ''Cash'', disabled = False\<rparr>\<rparr>"]
    sync_transition_rule [of "\<lparr>statusSel = \<lparr>sel_value = ''Paid'', disabled = False\<rparr>,
                              modeSel = \<lparr>sel_value = ''Pending'', disabled = True\<rparr>\<rparr>"]
  by simp

text \<open>
  The claim as stated fails on the first script version: with status \<^verbatim>\<open>Pending\<close>
  (a status other than \<^verbatim>\<open>Paid\<close>) the mode value ends as \<^verbatim>\<open>Pending\<close>, not empty;
  with a status that is neither, here \<^verbatim>\<open>Refunded\<close>, the select ends enabled with its
  selection kept.
\<close>

theorem sync_v1_not_cleared:
  "sel_value (modeSel (sync_v1 \<lparr>statusSel = \<lparr>sel_value = ''Pending'', disabled = False\<rparr>,
                                 modeSel = \<lparr>sel_value = ''Cash'', disabled = False\<rparr>\<rparr>))
     \<noteq> '''' \<and>
   \<not> disabled (modeSel (sync_v1 \<lparr>statusSel = \<lparr>sel_value = ''Refunded'', disabled = False\<rparr>,
                                  modeSel = \<lparr>sel_value = ''Cash'', disabled = False\<rparr>\<rparr>)) \<and>
   sel_value (modeSel (sync_v1 \<lparr>statusSel = \<lparr>sel_value = ''Refunded'', disabled = False\<rparr>,
                                 modeSel = \<lparr>sel_value = ''Cash'', disabled = False\<rparr>\<rparr>))
     = ''Cash''"
  by (simp add: sync_v1_def)

text \<open>
  Claim C7, as amended. After loading and any sequence of status changes, a status of
  \<^verbatim>\<open>Pending\<close> goes with a disabled mode select in both script versions; its value
  is empty under the second version, and is \<^verbatim>\<open>Pending\<close> under the first.
\<close>

theorem pending_invariant:
  "(sel_value (statusSel (after_events Second_version f chosen)) = ''Pending'' \<longrightarrow>
      sel_value (modeSel (after_events Second_version f chosen)) = '''' \<and>
      disabled (modeSel (after_events Second_version f chosen))) \<and>
   (sel_value (statusSel (after_events First_version f chosen)) = ''Pending'' \<longrightarrow>
      sel_value (modeSel (after_events First_version f chosen)) = ''Pending'' \<and>
      disabled (modeSel (after_events First_version f chosen)))"
proof -
  obtain g2 where g2: "after_events Second_version f chosen = sync_v2 g2"
    using after_events_is_sync [of Second_version f chosen] by auto
  obtain g1 where g1: "after_events First_version f chosen = sync_v1 g1"
    using after_events_is_sync [of First_version f chosen] by auto
  show ?thesis
    unfolding g1 g2 by (simp add: sync_v2_pending sync_v1_pending)
qed

theorem pending_invariant_witness:
  "sel_value (statusSel (after_events Second_version
       \<lparr>statusSel = \<lparr>sel_value = ''Paid'', disabled = False\<rparr>,
        modeSel = \<lparr>sel_value = ''Cash'', disabled = False\<rparr>\<rparr> [''Pending''])) = ''Pending'' \<and>
   sel_value (modeSel (after_events Second_version
       \<lparr>statusSel = \<lparr>sel_value = ''Paid'', disabled = False\<rparr>,
        modeSel = \<lparr>sel_value = ''Cash'', disabled = False\<rparr>\<rparr> [''Pending''])) = '''' \<and>
   disabled (modeSel (after_events Second_version
       \<lparr>statusSel = \<lparr>sel_value = ''Paid'', disabled = False\<rparr>,
        modeSel = \<lparr>sel_value = ''Cash'', disabled = False\<rparr>\<rparr> [''Pending''])) \<and>
   sel_value (statusSel (after_events First_version
       \<lparr>statusSel = \<lparr>sel_value = ''Paid'', disabled = False\<rparr>,
        modeSel = \<lparr>sel_value = ''Cash'', disabled = False\<rparr>\<rparr> [''Pending''])) = ''Pending'' \<and>
   sel_value (modeSel (after_events First_version
       \<lparr>statusSel = \<lparr>sel_value = ''Paid'', disabled = False\<rparr>,
        modeSel = \<lparr>sel_value = ''Cash'', disabled = False\<rparr>\<rparr> [''Pending''])) = ''Pending'' \<and>
   disabled (modeSel (after_events First_version
       \<lparr>statusSel = \<lparr>sel_value = ''Paid'', disabled = False\<rparr>,
        modeSel = \<lparr>sel_value = ''Cash'', disabled = False\<rparr>\<rparr> [''Pending'']))"
  using pending_invariant [of
      "\<lparr>statusSel = \<lparr>sel_value = ''Paid'', disabled = False\<rparr>,
        modeSel = \<lparr>sel_value = ''Cash'', disabled = False\<rparr>\<rparr>" "[''Pending'']"]
  by (simp add: after_events_def on_change_def)

text \<open>
  The claim as stated fails on the first script version: after loading a paid order
  and changing the status to \<^verbatim>\<open>Pending\<close>, the mode value is not empty.
\<close>

theorem pending_mode_not_empty_v1:
  "sel_value (statusSel (after_events First_version
       \<lparr>statusSel = \<lparr>sel_value = ''Paid'', disabled = False\<rparr>,
        modeSel = \<lparr>sel_value = ''Cash'', disabled = False\<rparr>\<rparr> [''Pending''])) = ''Pending'' \<and>
   sel_value (modeSel (after_events First_version
       \<lparr>statusSel = \<lparr>sel_value = ''Paid'', disabled = False\<rparr>,
        modeSel = \<lparr>sel_value = ''Cash'', disabled = False\<rparr>\<rparr> [''Pending''])) \<noteq> ''''"
  by (simp add: after_events_def on_change_def sync_v1_def)

text \<open>
  Claim C8. In both script versions the set-up ends with one call of \<^verbatim>\<open>sync\<close>:
  when both selects exist, the form right after loading, before any change event, is
  the result of \<^verbatim>\<open>sync\<close> on the pre-filled selects, and a pre-filled status of
  \<^verbatim>\<open>Paid\<close> starts with the mode select enabled.
\<close>

theorem load_applies_rule:
  "on_load v (Some s) (Some m) = Some (sync v \<lparr>statusSel = s, modeSel = m\<rparr>) \<and>
   after_events v \<lparr>statusSel = s, modeSel = m\<rparr> [] = sync v \<lparr>statusSel = s, modeSel = m\<rparr> \<and>
   (sel_value s = ''Paid'' \<longrightarrow>
      \<not> disabled (modeSel (sync v \<lparr>statusSel = s, modeSel = m\<rparr>)) \<and>
      sel_value (statusSel (sync v \<lparr>statusSel = s, modeSel = m\<rparr>)) = ''Paid'')"
  by (cases v) (simp_all add: on_load_def after_events_def sync_v1_def sync_v2_def Let_def)

theorem load_applies_rule_witness:
  "on_load Second_version (Some \<lparr>sel_value = ''Paid'', disabled = False\<rparr>)
      (Some \<lparr>sel_value = ''Cash'', disabled = True\<rparr>)
     = Some \<lparr>statusSel = \<lparr>sel_value = ''Paid'', disabled = False\<rparr>,
             modeSel = \<lparr>sel_value = ''Cash'', disabled = False\<rparr>\<rparr> \<and>
   on_load First_version (Some \<lparr>sel_value = ''Paid'', disabled = False\<rparr>)
      (Some \<lparr>sel_value = ''Cash'', disabled = True\<rparr>)
     = Some \<lparr>statusSel = \<lparr>sel_value = ''Paid'', disabled = False\<rparr>,
             modeSel = \<lparr>sel_value = ''Cash'', disabled = False\<rparr>\<rparr>"
  using
    load_applies_rule [of Second_version "\<lparr>sel_value = ''Paid'', disabled = False\<rparr>"
      "\<lparr>sel_value = ''Cash'', disabled = True\<rparr>"]
    load_applies_rule [of First_version "\<lparr>sel_value = ''Paid'', disabled = False\<rparr>"
      "\<lparr>sel_value = ''Cash'', disabled = True\<rparr>"]
  by (simp add: sync_v1_def sync_v2_def)

text \<open>
  Claim C9, as amended. The two versions of \<^verbatim>\<open>sync\<close> leave the same mode value and
  the same disabled flag exactly when the status is \<^verbatim>\<open>Paid\<close> and the prior mode
  value is not \<^verbatim>\<open>Pending\<close>; they leave the same disabled flag exactly when the
  status is \<^verbatim>\<open>Paid\<close> or \<^verbatim>\<open>Pending\<close>.
\<close>

theorem sync_versions_agree_iff:
  "(sel_value (modeSel (sync_v1 f)) = sel_value (modeSel (sync_v2 f)) \<and>
    disabled (modeSel (sync_v1 f)) = disabled (modeSel (sync_v2 f)))
   = (sel_value (statusSel f) = ''Paid'' \<and> sel_value (modeSel f) \<noteq> ''Pending'') \<and>
   (disabled (modeSel (sync_v1 f)) = disabled (modeSel (sync_v2 f)))
   = (sel_value (statusSel f) = ''Paid'' \<or> sel_value (statusSel f) = ''Pending'')"
  by (auto simp: sync_v1_def sync_v2_def Let_def)

theorem sync_versions_agree_iff_witness:
  "sel_value (modeSel (sync_v1 \<lparr>statusSel = \<lparr>sel_value = ''Paid'', disabled = False\<rparr>,
                                 modeSel = \<lparr>sel_value = ''Cash'', disabled = True\<rparr>\<rparr>))
     = sel_value (modeSel (sync_v2 \<lparr>statusSel = \<lparr>sel_value = ''Paid'', disabled = False\<rparr>,
                                     modeSel = \<lparr>sel_value = ''Cash'', disabled = True\<rparr>\<rparr>)) \<and>
   disabled (modeSel (sync_v1 \<lparr>statusSel = \<lparr>sel_value = ''Paid'', disabled = False\<rparr>,
                                modeSel = \<lparr>sel_value = ''Cash'', disabled = True\<rparr>\<rparr>))
     = disabled (modeSel (sync_v2 \<lparr>statusSel = \<lparr>sel_value = ''Paid'', disabled = False\<rparr>,
                                    modeSel = \<lparr>sel_value = ''Cash'', disabled = True\<rparr>\<rparr>))"
  using sync_versions_agree_iff [of "\<lparr>statusSel = \<lparr>sel_value = ''Paid'', disabled = False\<rparr>,
                                      modeSel = \<lparr>sel_value = ''Cash'', disabled = True\<rparr>\<rparr>"]
  by simp

text \<open>
  The versions are not equivalent: on status \<^verbatim>\<open>Pending\<close> the mode values differ
  (\<^verbatim>\<open>Pending\<close> against the empty string), and on a status that is neither
  \<^verbatim>\<open>Paid\<close> nor \<^verbatim>\<open>Pending\<close> the disabled flags differ.
\<close>

theorem sync_versions_differ:
  "sel_value (modeSel (sync_v1 \<lparr>statusSel = \<lparr>sel_value = ''Pending'', disabled = False\<rparr>,
                                 modeSel = \<lparr>sel_value = ''Cash'', disabled = False\<rparr>\<rparr>))
     \<noteq> sel_value (modeSel (sync_v2 \<lparr>statusSel = \<lparr>sel_value = ''Pending'', disabled = False\<rparr>,
                                       modeSel = \<lparr>sel_value = ''Cash'', disabled = False\<rparr>\<rparr>)) \<and>
   disabled (modeSel (sync_v1 \<lparr>statusSel = \<lparr>sel_value = ''Refunded'', disabled = False\<rparr>,
                                modeSel = \<lparr>sel_value = ''Cash'', disabled = False\<rparr>\<rparr>))
     \<noteq> disabled (modeSel (sync_v2 \<lparr>statusSel = \<lparr>sel_value = ''Refunded'', disabled = False\<rparr>,
                                      modeSel = \<lparr>sel_value = ''Cash'', disabled = False\<rparr>\<rparr>))"
  by (simp add: sync_v1_def sync_v2_def)

text \<open>
  Claim C10. \<^verbatim>\<open>sync\<close> is idempotent in both script versions: a second run
  changes nothing, neither the mode value nor the disabled flag nor the status select.
\<close>

theorem sync_idempotent: "sync v (sync v f) = sync v f"
  by (cases v) (simp_all add: sync_v1_def sync_v2_def Let_def)

theorem sync_idempotent_witness:
  "sync First_version (sync First_version
       \<lparr>statusSel = \<lparr>sel_value = ''Paid'', disabled = False\<rparr>,
        modeSel = \<lparr>sel_value = ''Pending'', disabled = True\<rparr>\<rparr>)
     = \<lparr>statusSel = \<lparr>sel_value = ''Paid'', disabled = False\<rparr>,
        modeSel = \<lparr>sel_value = ''UPI'', disabled = False\<rparr>\<rparr> \<and>
   sync Second_version (sync Second_version
       \<lparr>statusSel = \<lparr>sel_value = ''Pending'', disabled = False\<rparr>,
        modeSel = \<lparr>sel_value = ''Cash'', disabled = False\<rparr>\<rparr>)
     = \<lparr>statusSel = \<lparr>sel_value = ''Pending'', disabled = False\<rparr>,
        modeSel = \<lparr>sel_value = '''', disabled = True\<rparr>\<rparr>"
  using
    sync_idempotent [of First_version "\<lparr>statusSel = \<lparr>sel_value = ''Paid'', disabled = False\<rparr>,
        modeSel = \<lparr>sel_value = ''Pending'', disabled = True\<rparr>\<rparr>"]
    sync_idempotent [of Second_version "\<lparr>statusSel = \<lparr>sel_value = ''Pending'', disabled = False\<rparr>,
        modeSel = \<lparr>sel_value = ''Cash'', disabled = False\<rparr>\<rparr>"]
  by (simp add: sync_v1_def sync_v2_def)

section \<open>Properties of the chart adapter\<close>

subsection \<open>What the percentage computations return\<close>

text \<open>
  A total that passes the test \<^verbatim>\<open>total ? ... : ...\<close> is not zero, so the quotient is
  formed without a division by zero.
\<close>

lemma truthy_not_zero: "truthy t \<Longrightarrow> t \<noteq> Fin 0"
  by (auto simp: truthy_def)

lemma formatter_pct_Some:
  "formatter_pct v (Some data) =
     Inr (if truthy (total_of data) then num_div (num_mul v (Fin 100)) (total_of data)
          else Fin 0)"
  by (simp add: formatter_pct_def divide_num_def truthy_not_zero)

lemma fixed_pct_eq:
  "fixed_pct ns val tot =
     Inr (if truthy tot then Str (toFixed1 ns (num_div (num_mul val (Fin 100)) tot))
          else Num (Fin 0))"
  by (simp add: fixed_pct_def divide_num_def truthy_not_zero)

text \<open>Non-negative values that sum to 0 are all 0, and so is the total the code computes.\<close>

lemma fl_zero: "fl 0 = Fin 0"
  by (simp add: fl_def)

lemma total_of_zeros: "\<forall>a \<in> set data. a = Fin 0 \<Longrightarrow> total_of data = Fin 0"
proof -
  have "foldl num_add (Fin 0) data = Fin 0" if "\<forall>a \<in> set data. a = Fin 0"
    using that by (induction data) (simp_all add: fl_zero)
  then show "\<forall>a \<in> set data. a = Fin 0 \<Longrightarrow> total_of data = Fin 0"
    by (simp add: total_of_def)
qed

lemma total_of_zero_sum:
  assumes "\<forall>x \<in> set xs. 0 \<le> x" and "sum_list xs = (0 :: rat)"
  shows "total_of (map Fin xs) = Fin 0"
proof -
  have "\<forall>x \<in> set xs. x = 0"
    using assms sum_list_nonneg_eq_0_iff [of xs] by auto
  then show ?thesis
    by (intro total_of_zeros) auto
qed

subsection \<open>The legend generator\<close>

lemma map_results_all:
  "(\<And>x. x \<in> set xs \<Longrightarrow> f x = Inr (g x)) \<Longrightarrow> map_results f xs = Inr (map g xs)"
  by (induction xs) simp_all

lemma map_results_error:
  "map_results f xs = Inl e \<Longrightarrow> \<exists>x \<in> set xs. f x = Inl e"
  by (induction xs) (auto split: sum.splits)

lemma map_results_first_error:
  assumes "i < length xs" and "f (xs ! i) = Inl e"
    and "\<And>j. j < i \<Longrightarrow> \<exists>y. f (xs ! j) = Inr y"
  shows "map_results f xs = Inl e"
  using assms
proof (induction xs arbitrary: i)
  case Nil
  then show ?case by simp
next
  case (Cons x xs)
  show ?case
  proof (cases i)
    case 0
    with Cons.prems(2) show ?thesis by simp
  next
    case (Suc k)
    from Cons.prems(3) [of 0] Suc obtain y where y: "f x = Inr y" by auto
    have "map_results f xs = Inl e"
    proof (rule Cons.IH [of k])
      show "k < length xs" using Cons.prems(1) Suc by simp
      show "f (xs ! k) = Inl e" using Cons.prems(2) Suc by simp
      show "\<exists>y. f (xs ! j) = Inr y" if "j < k" for j
        using Cons.prems(3) [of "Suc j"] that Suc by simp
    qed
    with y show ?thesis by simp
  qed
qed

lemma legend_entry_errors: "legend_entry ns c data tot il \<noteq> Inl DivisionByZero"
  by (simp add: legend_entry_def fixed_pct_eq Let_def)

lemma generateLabels_no_division_by_zero: "generateLabels ns c \<noteq> Inl DivisionByZero"
  using map_results_error legend_entry_errors
  by (fastforce simp: generateLabels_def Let_def)

text \<open>
  Where \<^verbatim>\<open>meta.data\<close> has an element for the index, the callback returns the legend
  item; where every label has one, the generator returns one item for each label.
\<close>

lemma legend_entry_present:
  "fst il < length (meta_data c) \<Longrightarrow>
   legend_entry ns c data tot il =
     Inr \<lparr>legend_text =
            snd il @ '' '' @ em_dash @ '' ''
              @ (if truthy tot
                 then toFixed1 ns
                   (num_div (num_mul (if fst il < length data then data ! fst il else Fin 0)
                      (Fin 100)) tot)
                 else num_text ns (Fin 0))
              @ ''% ('' @ num_text ns (if fst il < length data then data ! fst il else Fin 0)
              @ '')'',
          fillStyle = backgroundColor (getStyle c (fst il)),
          strokeStyle = borderColor (getStyle c (fst il)),
          lineWidth = borderWidth (getStyle c (fst il)),
          item_hidden =
            (isNaN (if fst il < length data then data ! fst il else Fin 0)
             \<or> hidden (meta_data c ! fst il)),
          index = fst il\<rparr>"
  by (simp add: legend_entry_def fixed_pct_eq Let_def)

lemma enumerate_fst_bound: "il \<in> set (enumerate 0 xs) \<Longrightarrow> fst il < length xs"
  by (auto simp: in_set_enumerate_eq)

lemma map_enumerate: "map f (enumerate 0 xs) = map (\<lambda>i. f (i, xs ! i)) [0..<length xs]"
  by (rule nth_equalityI) (simp_all add: nth_enumerate_eq)

lemma generateLabels_present:
  assumes "length (chart_labels c) \<le> length (meta_data c)"
    and "data = (case chart_data c of None \<Rightarrow> [] | Some d \<Rightarrow> d)"
  shows "generateLabels ns c =
     Inr (map (\<lambda>il.
           \<lparr>legend_text =
              snd il @ '' '' @ em_dash @ '' ''
                @ (if truthy (total_of data)
                   then toFixed1 ns
                     (num_div (num_mul (if fst il < length data then data ! fst il else Fin 0)
                        (Fin 100)) (total_of data))
                   else num_text ns (Fin 0))
                @ ''% ('' @ num_text ns (if fst il < length data then data ! fst il else Fin 0)
                @ '')'',
            fillStyle = backgroundColor (getStyle c (fst il)),
            strokeStyle = borderColor (getStyle c (fst il)),
            lineWidth = borderWidth (getStyle c (fst il)),
            item_hidden =
              (isNaN (if fst il < length data then data ! fst il else Fin 0)
               \<or> hidden (meta_data c ! fst il)),
            index = fst il\<rparr>)
        (enumerate 0 (chart_labels c)))"
proof -
  have "fst il < length (meta_data c)" if "il \<in> set (enumerate 0 (chart_labels c))" for il
    using enumerate_fst_bound [OF that] assms(1) by simp
  then show ?thesis
    unfolding generateLabels_def Let_def assms(2)
    by (intro map_results_all) (simp add: legend_entry_present)
qed

text \<open>
  On a chart with more labels than values, the first label without a value has no
  element in \<^verbatim>\<open>meta.data\<close> either, and the generator ends with the \<^verbatim>\<open>TypeError\<close>
  of reading \<^verbatim>\<open>hidden\<close> of \<^verbatim>\<open>undefined\<close>.
\<close>

lemma generateLabels_missing_element:
  assumes "data = (case chart_data c of None \<Rightarrow> [] | Some d \<Rightarrow> d)"
    and "length (meta_data c) = length data"
    and "length data < length (chart_labels c)"
  shows "generateLabels ns c = Inl TypeError"
proof -
  let ?xs = "enumerate 0 (chart_labels c)"
  let ?i = "length data"
  have i: "?i < length ?xs"
    using assms(3) by simp
  have x: "?xs ! ?i = (?i, chart_labels c ! ?i)"
    using assms(3) by (simp add: nth_enumerate_eq)
  have e: "legend_entry ns c data t (?xs ! ?i) = Inl TypeError" for t
    unfolding x using assms(2)
    by (simp add: legend_entry_def fixed_pct_eq Let_def isNaN_def)
  have b: "\<exists>y. legend_entry ns c data t (?xs ! j) = Inr y" if "j < ?i" for j t
  proof -
    have "fst (?xs ! j) = j"
      using that assms(3) by (simp add: nth_enumerate_eq)
    then have "fst (?xs ! j) < length (meta_data c)"
      using that assms(2) by simp
    then show ?thesis
      by (simp add: legend_entry_present)
  qed
  show ?thesis
    unfolding generateLabels_def Let_def assms(1) [symmetric]
    using i e b
    by (intro map_results_first_error [where i = "?i"]) auto
qed

subsection \<open>Rounding to the nearest double\<close>

text \<open>
  The properties of \<open>fl\<close> that the sum of the percentages rests on: the exponent
  found by \<open>binade\<close> is the right one, a rounded result lies within half a spacing of
  the exact one, a multiple of \<open>2\<^sup>-\<^sup>1\<^sup>0\<^sup>7\<^sup>4\<close> below the normal range is rounded to itself, a
  result below \<open>2\<^sup>1\<^sup>0\<^sup>2\<^sup>3\<close> in magnitude is finite, and one of at least \<open>2\<^sup>1\<^sup>0\<^sup>2\<^sup>4\<close> is
  infinite.
\<close>

lemma round_half_even_near: "\<bar>of_int (round_half_even y) - y\<bar> \<le> 1 / 2"
proof -
  have lo: "of_int \<lfloor>y\<rfloor> \<le> y" by (rule of_int_floor_le)
  have hi: "y < of_int \<lfloor>y\<rfloor> + 1" using floor_correct [of y] by simp
  show ?thesis
    using lo hi unfolding round_half_even_def Let_def
    by (auto simp: abs_le_iff; linarith)
qed

lemma round_half_even_int: "round_half_even (of_int k) = k"
  by (simp add: round_half_even_def)

lemma round_half_even_nonneg: "0 \<le> y \<Longrightarrow> 0 \<le> round_half_even y"
  by (auto simp: round_half_even_def Let_def)

lemma quotient_of_abs:
  assumes "x \<noteq> 0"
  shows "0 < fst (quotient_of \<bar>x\<bar>)" and "0 < snd (quotient_of \<bar>x\<bar>)"
    and "\<bar>x\<bar> = of_int (fst (quotient_of \<bar>x\<bar>)) / of_int (snd (quotient_of \<bar>x\<bar>))"
proof -
  obtain p q where pq: "quotient_of \<bar>x\<bar> = (p, q)" by (cases "quotient_of \<bar>x\<bar>")
  have q: "0 < q" using quotient_of_denom_pos [OF pq] .
  have e: "\<bar>x\<bar> = of_int p / of_int q" using quotient_of_div [OF pq] .
  have "0 < \<bar>x\<bar>" using assms by simp
  then have p: "0 < p" using e q by (simp add: zero_less_divide_iff)
  show "0 < fst (quotient_of \<bar>x\<bar>)"
    unfolding pq fst_conv by (rule p)
  show "0 < snd (quotient_of \<bar>x\<bar>)"
    unfolding pq snd_conv by (rule q)
  show "\<bar>x\<bar> = of_int (fst (quotient_of \<bar>x\<bar>)) / of_int (snd (quotient_of \<bar>x\<bar>))"
    unfolding pq fst_conv snd_conv by (rule e)
qed

lemma binade_lower:
  assumes "x \<noteq> 0"
  shows "2 powi binade x \<le> \<bar>x\<bar>"
proof -
  define p where "p = fst (quotient_of \<bar>x\<bar>)"
  define q where "q = snd (quotient_of \<bar>x\<bar>)"
  have p: "0 < p" and q: "0 < q" and x: "\<bar>x\<bar> = of_int p / of_int q"
    using quotient_of_abs [OF assms] by (simp_all add: p_def q_def)
  define e0 where "e0 = bitlen p - bitlen q"
  have b: "binade x = (if 2 powi e0 \<le> \<bar>x\<bar> then e0 else e0 - 1)"
    by (simp add: binade_def Let_def p_def q_def e0_def)
  show ?thesis
  proof (cases "(2 :: rat) powi e0 \<le> \<bar>x\<bar>")
    case True
    then show ?thesis by (simp add: b)
  next
    case False
    have bp: "1 \<le> bitlen p" and bq: "1 \<le> bitlen q"
      using p q by (auto simp: bitlen_alt_def)
    have lp: "2 ^ nat (bitlen p - 1) \<le> p" using bitlen_bounds [OF p] by simp
    have uq: "q < 2 ^ nat (bitlen q)" using bitlen_bounds [OF q] by simp
    have lp': "(2 :: rat) powi (bitlen p - 1) \<le> of_int p"
    proof -
      have "(of_int (2 ^ nat (bitlen p - 1)) :: rat) \<le> of_int p"
        using lp by (simp only: of_int_le_iff)
      then show ?thesis using bp by (simp add: power_int_nonneg_exp)
    qed
    have uq': "of_int q \<le> (2 :: rat) powi (bitlen q)"
    proof -
      have "(of_int q :: rat) \<le> of_int (2 ^ nat (bitlen q))"
        using uq by simp
      then show ?thesis using bq by (simp add: power_int_nonneg_exp)
    qed
    have "(2 :: rat) powi (e0 - 1) = 2 powi (bitlen p - 1) / 2 powi (bitlen q)"
      by (simp add: e0_def power_int_diff)
    also have "\<dots> \<le> of_int p / of_int q"
      using lp' uq' p q by (intro frac_le) simp_all
    finally show ?thesis using False by (simp add: b x)
  qed
qed

lemma binade_less:
  assumes "x \<noteq> 0" and "\<bar>x\<bar> < 2 powi k"
  shows "binade x < k"
proof (rule ccontr)
  assume "\<not> binade x < k"
  then have "(2 :: rat) powi k \<le> 2 powi binade x"
    by (intro power_int_increasing) simp_all
  with binade_lower [OF assms(1)] assms(2) show False by simp
qed

lemma pow2_le_D: "(2 :: rat) powi a \<le> 2 powi b \<Longrightarrow> a \<le> b"
proof (rule ccontr)
  assume le: "(2 :: rat) powi a \<le> 2 powi b" and "\<not> a \<le> b"
  then have "(2 :: rat) powi b < 2 powi a"
    by (intro power_int_strict_increasing) simp_all
  with le show False by simp
qed

lemma pow2_less_D: "(2 :: rat) powi a < 2 powi b \<Longrightarrow> a < b"
proof (rule ccontr)
  assume less: "(2 :: rat) powi a < 2 powi b" and "\<not> a < b"
  then have "(2 :: rat) powi b \<le> 2 powi a"
    by (intro power_int_increasing) simp_all
  with less show False by simp
qed

lemma binade_upper:
  assumes "x \<noteq> 0"
  shows "\<bar>x\<bar> < 2 powi (binade x + 1)"
proof -
  define p where "p = fst (quotient_of \<bar>x\<bar>)"
  define q where "q = snd (quotient_of \<bar>x\<bar>)"
  have p: "0 < p" and q: "0 < q" and x: "\<bar>x\<bar> = of_int p / of_int q"
    using quotient_of_abs [OF assms] by (simp_all add: p_def q_def)
  define e0 where "e0 = bitlen p - bitlen q"
  have b: "binade x = (if 2 powi e0 \<le> \<bar>x\<bar> then e0 else e0 - 1)"
    by (simp add: binade_def Let_def p_def q_def e0_def)
  show ?thesis
  proof (cases "(2 :: rat) powi e0 \<le> \<bar>x\<bar>")
    case False
    then show ?thesis by (simp add: b)
  next
    case True
    have bp: "1 \<le> bitlen p" and bq: "1 \<le> bitlen q"
      using p q by (auto simp: bitlen_alt_def)
    have up: "p < 2 ^ nat (bitlen p)" using bitlen_bounds [OF p] by simp
    have lq: "2 ^ nat (bitlen q - 1) \<le> q" using bitlen_bounds [OF q] by simp
    have up': "of_int p < (2 :: rat) powi (bitlen p)"
    proof -
      have "(of_int p :: rat) < of_int (2 ^ nat (bitlen p))"
        using up by (simp only: of_int_less_iff)
      then show ?thesis using bp by (simp add: power_int_nonneg_exp)
    qed
    have lq': "(2 :: rat) powi (bitlen q - 1) \<le> of_int q"
    proof -
      have "(of_int (2 ^ nat (bitlen q - 1)) :: rat) \<le> of_int q"
        using lq by (simp only: of_int_le_iff)
      then show ?thesis using bq by (simp add: power_int_nonneg_exp)
    qed
    have "of_int p / of_int q < (2 :: rat) powi (bitlen p) / 2 powi (bitlen q - 1)"
      using up' lq' p by (intro frac_less) simp_all
    also have "\<dots> = 2 powi (bitlen p - (bitlen q - 1))"
      by (rule power_int_diff [symmetric]) simp
    also have "bitlen p - (bitlen q - 1) = e0 + 1"
      by (simp add: e0_def)
    finally show ?thesis using True by (simp add: b x)
  qed
qed

lemma binade_pow2: "binade (2 powi k) = k"
proof -
  have nz: "(2 :: rat) powi k \<noteq> 0" by simp
  have a: "\<bar>(2 :: rat) powi k\<bar> = 2 powi k" by simp
  have "(2 :: rat) powi binade (2 powi k) \<le> 2 powi k"
    using binade_lower [OF nz] by (simp only: a)
  then have le: "binade (2 powi k) \<le> k"
    by (rule pow2_le_D)
  have "(2 :: rat) powi k < 2 powi (binade (2 powi k) + 1)"
    using binade_upper [OF nz] by (simp only: a)
  then have "k < binade (2 powi k) + 1"
    by (rule pow2_less_D)
  with le show ?thesis by simp
qed

lemma fl_Fin_form:
  assumes "x \<noteq> 0" and "fl x = Fin y"
  shows "y = (if x < 0 then - 1 else 1)
             * of_int (round_half_even (\<bar>x\<bar> / 2 powi (max (binade x) (- 1022) - 52)))
             * 2 powi (max (binade x) (- 1022) - 52)"
  using assms by (auto simp: fl_def Let_def infinity_def split: if_splits)

lemma fl_error:
  assumes "fl x = Fin y"
  shows "\<bar>y - x\<bar> \<le> 2 powi (max (binade x) (- 1022) - 53)"
proof (cases "x = 0")
  case True
  with assms show ?thesis by (simp add: fl_def)
next
  case False
  define e where "e = max (binade x) (- 1022)"
  define q :: rat where "q = 2 powi (e - 52)"
  define n where "n = round_half_even (\<bar>x\<bar> / q)"
  have q: "0 < q" by (simp add: q_def)
  have y: "y = (if x < 0 then - 1 else 1) * of_int n * q"
    using fl_Fin_form [OF False assms] by (simp add: e_def q_def n_def)
  have "\<bar>y - x\<bar> = \<bar>of_int n * q - \<bar>x\<bar>\<bar>"
  proof (cases "x < 0")
    case True
    then have "y - x = - (of_int n * q - \<bar>x\<bar>)" by (simp add: y)
    then show ?thesis by (simp only: abs_minus_cancel)
  next
    case False
    then have "y - x = of_int n * q - \<bar>x\<bar>" by (simp add: y)
    then show ?thesis by simp
  qed
  also have "\<dots> = \<bar>of_int n - \<bar>x\<bar> / q\<bar> * q"
  proof -
    have "of_int n * q - \<bar>x\<bar> = (of_int n - \<bar>x\<bar> / q) * q"
      using q by (simp add: field_simps)
    then show ?thesis using q by (simp add: abs_mult)
  qed
  also have "\<dots> \<le> 1 / 2 * q"
    using round_half_even_near [of "\<bar>x\<bar> / q"] q
    unfolding n_def by (intro mult_right_mono) simp_all
  also have "\<dots> = 2 powi (e - 53)"
  proof -
    have "(2 :: rat) powi (e - 52) = 2 powi (e - 53 + 1)" by simp
    also have "\<dots> = 2 powi (e - 53) * 2" by (subst power_int_add) simp_all
    finally show ?thesis by (simp add: q_def)
  qed
  finally show ?thesis by (simp add: e_def)
qed

lemma fl_nonneg:
  assumes "fl x = Fin y" and "0 \<le> x"
  shows "0 \<le> y"
proof (cases "x = 0")
  case True
  with assms show ?thesis by (simp add: fl_def)
next
  case False
  show ?thesis
    unfolding fl_Fin_form [OF False assms(1)]
    using assms(2) by (simp add: round_half_even_nonneg)
qed

lemma fl_rel_normal:
  assumes "fl x = Fin y" and "2 powi (- 1022) \<le> \<bar>x\<bar>"
  shows "\<bar>y - x\<bar> \<le> \<bar>x\<bar> / 2 ^ 53"
proof -
  have x: "x \<noteq> 0"
  proof
    assume "x = 0"
    with assms(2) have "(2 :: rat) powi (- 1022) \<le> 0" by simp
    moreover have "(0 :: rat) < 2 powi (- 1022)" by (rule zero_less_power_int) simp
    ultimately show False by simp
  qed
  define e where "e = max (binade x) (- 1022)"
  have le: "(2 :: rat) powi e \<le> \<bar>x\<bar>"
    using binade_lower [OF x] assms(2) by (simp add: e_def max_def)
  have "\<bar>y - x\<bar> \<le> 2 powi (e - 53)"
    using fl_error [OF assms(1)] by (simp add: e_def)
  also have "(2 :: rat) powi (e - 53) = 2 powi e / 2 ^ 53"
    by (subst power_int_diff) simp_all
  also have "\<dots> \<le> \<bar>x\<bar> / 2 ^ 53"
    using le by (simp add: divide_right_mono)
  finally show ?thesis .
qed

lemma fl_abs:
  assumes "fl x = Fin y"
  shows "\<bar>y - x\<bar> \<le> \<bar>x\<bar> / 2 ^ 53 + 2 powi (- 1075)"
proof (cases "(2 :: rat) powi (- 1022) \<le> \<bar>x\<bar>")
  case True
  have "(0 :: rat) \<le> 2 powi (- 1075)" by simp
  with fl_rel_normal [OF assms True] show ?thesis by linarith
next
  case False
  have small: "\<bar>x\<bar> < 2 powi (- 1022)"
    using False by (simp only: not_le)
  have "\<bar>y - x\<bar> \<le> 2 powi (- 1075)"
  proof (cases "x = 0")
    case True
    with assms show ?thesis by (simp add: fl_def)
  next
    case nz: False
    have "binade x < - 1022"
      using nz small by (rule binade_less)
    then have "max (binade x) (- 1022) = - 1022"
      by (simp add: max_def)
    with fl_error [OF assms] show ?thesis by simp
  qed
  moreover have "0 \<le> \<bar>x\<bar> / 2 ^ 53" by simp
  ultimately show ?thesis by linarith
qed

lemma fl_finite:
  assumes "\<bar>x\<bar> < 2 powi 1023"
  shows "\<exists>y. fl x = Fin y"
proof (cases "x = 0")
  case True
  then show ?thesis by (simp add: fl_def)
next
  case False
  have "binade x < 1023"
    using binade_less [OF False assms] .
  then have "max (binade x) (- 1022) < 1023" by simp
  then show ?thesis
    using False by (auto simp: fl_def Let_def)
qed

lemma fl_grid:
  assumes "fl x = Fin y"
  shows "\<exists>k :: int. y = of_int k * 2 powi (- 1074)"
proof (cases "x = 0")
  case True
  with assms have "y = of_int 0 * 2 powi (- 1074)" by (simp add: fl_def)
  then show ?thesis by blast
next
  case False
  define e where "e = max (binade x) (- 1022)"
  define n where "n = round_half_even (\<bar>x\<bar> / 2 powi (e - 52))"
  have e: "0 \<le> e + 1022" by (simp add: e_def)
  have y: "y = (if x < 0 then - 1 else 1) * of_int n * 2 powi (e - 52)"
    using fl_Fin_form [OF False assms] by (simp add: e_def n_def)
  have "(2 :: rat) powi (e - 52) = 2 powi ((e + 1022) + (- 1074))" by simp
  also have "\<dots> = 2 powi (e + 1022) * 2 powi (- 1074)"
    by (rule power_int_add) simp
  also have "(2 :: rat) powi (e + 1022) = of_int (2 ^ nat (e + 1022))"
    using e by (simp add: power_int_nonneg_exp)
  finally have "y = of_int ((if x < 0 then - 1 else 1) * n * 2 ^ nat (e + 1022)) * 2 powi (- 1074)"
    unfolding y by simp
  then show ?thesis by blast
qed

lemma fl_exact_small:
  assumes "x = of_int k * 2 powi (- 1074)" and "\<bar>x\<bar> < 2 powi (- 1022)"
  shows "fl x = Fin x"
proof (cases "x = 0")
  case True
  then show ?thesis by (simp add: fl_def)
next
  case False
  have "binade x < - 1022"
    using False assms(2) by (rule binade_less)
  then have e: "max (binade x) (- 1022) = - 1022"
    by (simp add: max_def)
  have q: "(0 :: rat) < 2 powi (- 1074)" by (rule zero_less_power_int) simp
  have "\<bar>x\<bar> / 2 powi (- 1074) = of_int \<bar>k\<bar>"
    using q unfolding assms(1) by (simp add: abs_mult)
  then have n: "round_half_even (\<bar>x\<bar> / 2 powi (- 1074)) = \<bar>k\<bar>"
    by (simp only: round_half_even_int)
  have r: "(if x < 0 then - 1 else 1) * of_int \<bar>k\<bar> * 2 powi (- 1074) = x"
  proof (cases "x < 0")
    case True
    then have "k < 0" using q unfolding assms(1) by (simp add: mult_less_0_iff)
    with True show ?thesis unfolding assms(1) by simp
  next
    case nonneg: False
    then have "0 \<le> k" using q unfolding assms(1) by (simp add: zero_le_mult_iff not_less)
    with nonneg show ?thesis unfolding assms(1) by simp
  qed
  have "fl x = Fin ((if x < 0 then - 1 else 1)
                     * of_int (round_half_even (\<bar>x\<bar> / 2 powi (- 1074))) * 2 powi (- 1074))"
    using False by (simp add: fl_def Let_def e)
  then show ?thesis
    by (simp only: n r)
qed

lemma fl_rel_grid:
  assumes "fl x = Fin y" and "x = of_int k * 2 powi (- 1074)"
  shows "\<bar>y - x\<bar> \<le> \<bar>x\<bar> / 2 ^ 53"
proof (cases "(2 :: rat) powi (- 1022) \<le> \<bar>x\<bar>")
  case True
  with assms(1) show ?thesis by (rule fl_rel_normal)
next
  case False
  then have "\<bar>x\<bar> < 2 powi (- 1022)" by (simp only: not_le)
  with assms(2) have "fl x = Fin x" by (rule fl_exact_small)
  with assms(1) show ?thesis by simp
qed

lemma is_double_grid: "is_double x \<Longrightarrow> \<exists>k :: int. x = of_int k * 2 powi (- 1074)"
  unfolding is_double_def by (rule fl_grid)

lemma grid_add:
  assumes "(a :: rat) = of_int j * 2 powi (- 1074)" and "b = of_int k * 2 powi (- 1074)"
  shows "a + b = of_int (j + k) * 2 powi (- 1074)"
  unfolding assms by (simp add: algebra_simps)

lemma grid_times:
  "(a :: rat) = of_int j * 2 powi (- 1074) \<Longrightarrow> a * 100 = of_int (j * 100) * 2 powi (- 1074)"
  by (simp add: algebra_simps)

lemma fl_pow2:
  assumes "- 1022 \<le> k" and "k \<le> 1023"
  shows "fl (2 powi k) = Fin (2 powi k)"
proof -
  have e: "max (binade (2 powi k)) (- 1022) = k"
    using assms(1) by (simp add: binade_pow2 max_def)
  have "(2 :: rat) powi k / 2 powi (k - 52) = 2 powi (k - (k - 52))"
    by (rule power_int_diff [symmetric]) simp
  then have d: "(2 :: rat) powi k / 2 powi (k - 52) = of_int (2 ^ 52)"
    by simp
  have n: "round_half_even (2 powi k / 2 powi (k - 52)) = 2 ^ 52"
    unfolding d by (rule round_half_even_int)
  have m: "of_int (2 ^ 52) * (2 :: rat) powi (k - 52) = 2 powi k"
  proof -
    have "(2 :: rat) powi k = 2 powi (52 + (k - 52))" by simp
    also have "\<dots> = 2 powi 52 * 2 powi (k - 52)" by (rule power_int_add) simp
    finally show ?thesis by simp
  qed
  have pos: "\<not> (2 :: rat) powi k < 0"
    by (simp add: not_less)
  have "fl (2 powi k) = Fin (of_int (2 ^ 52) * 2 powi (k - 52))"
    using assms(2) pos by (simp add: fl_def Let_def e n del: of_int_numeral of_int_power)
  then show ?thesis by (simp only: m)
qed

lemma fl_overflow:
  assumes "2 powi 1024 \<le> x"
  shows "fl x = PInf"
proof -
  have pos: "(0 :: rat) < 2 powi 1024" by (rule zero_less_power_int) simp
  with assms have x: "0 < x" by simp
  then have nz: "x \<noteq> 0" by simp
  have "(2 :: rat) powi 1024 < 2 powi (binade x + 1)"
    using binade_upper [OF nz] assms x by simp
  then have "1024 < binade x + 1"
    by (rule pow2_less_D)
  then have "max (binade x) (- 1022) = binade x" and "1023 < binade x"
    by (simp_all add: max_def)
  then show ?thesis
    using x by (simp add: fl_def Let_def infinity_def)
qed

subsection \<open>The error of the total and of the percentages\<close>

text \<open>
  The total that \<^verbatim>\<open>reduce\<close> computes from \<open>n\<close> non-negative doubles lies between the
  exact sum times \<open>(1 - 2\<^sup>-\<^sup>5\<^sup>3)\<^sup>n\<close> and the exact sum times \<open>(1 + 2\<^sup>-\<^sup>5\<^sup>3)\<^sup>n\<close>; a
  percentage carries two more roundings.
\<close>

lemma unit_roundoff_range: "0 \<le> unit_roundoff" "unit_roundoff \<le> 1"
  by (simp_all add: unit_roundoff_def)

lemma grow_upper:
  assumes "0 \<le> (u :: rat)" and "0 \<le> s" and "b \<le> c * (1 + u)"
  shows "b + s \<le> (c + s) * (1 + u)"
proof -
  have "0 \<le> s * u" using assms(1,2) by simp
  then show ?thesis using assms(3) by (simp add: algebra_simps)
qed

lemma grow_lower:
  assumes "0 \<le> (u :: rat)" and "0 \<le> s" and "c * (1 - u) \<le> b"
  shows "(c + s) * (1 - u) \<le> b + s"
proof -
  have "0 \<le> s * u" using assms(1,2) by simp
  then show ?thesis using assms(3) by (simp add: algebra_simps)
qed

lemma rel_error_bounds:
  assumes "\<bar>y - c\<bar> \<le> \<bar>c\<bar> / 2 ^ 53" and "0 \<le> (c :: rat)"
  shows "c * (1 - unit_roundoff) \<le> y" and "y \<le> c * (1 + unit_roundoff)"
proof -
  have e: "\<bar>y - c\<bar> \<le> c / 2 ^ 53"
    using assms(1) unfolding abs_of_nonneg [OF assms(2)] .
  have "y - c \<le> c / 2 ^ 53"
    using e by (rule abs_le_D1)
  then show "y \<le> c * (1 + unit_roundoff)"
    by (simp add: unit_roundoff_def algebra_simps)
  have "- (y - c) \<le> c / 2 ^ 53"
    using e by (rule abs_le_D2)
  then show "c * (1 - unit_roundoff) \<le> y"
    by (simp add: unit_roundoff_def algebra_simps)
qed

lemma reduce_bounds:
  assumes "\<forall>x \<in> set xs. 0 \<le> x \<and> is_double x"
    and "0 \<le> a" and "\<exists>k :: int. a = of_int k * 2 powi (- 1074)"
    and "(a + sum_list xs) * (1 + unit_roundoff) ^ length xs < 2 powi 1023"
  shows "\<exists>t. foldl num_add (Fin a) (map Fin xs) = Fin t \<and>
             (a + sum_list xs) * (1 - unit_roundoff) ^ length xs \<le> t \<and>
             t \<le> (a + sum_list xs) * (1 + unit_roundoff) ^ length xs"
  using assms
proof (induction xs arbitrary: a)
  case Nil
  then show ?case by simp
next
  case (Cons x xs)
  let ?u = unit_roundoff
  let ?n = "length xs"
  let ?s = "sum_list xs"
  note u = unit_roundoff_range
  have x: "0 \<le> x" and dx: "is_double x" and rest: "\<forall>x \<in> set xs. 0 \<le> x \<and> is_double x"
    using Cons.prems(1) by simp_all
  have s: "0 \<le> ?s"
    using rest by (intro sum_list_nonneg) simp
  have c: "0 \<le> a + x" using Cons.prems(2) x by simp
  have p1: "1 \<le> (1 + ?u) ^ k" for k
    using u(1) by (intro one_le_power) simp
  have p0: "0 \<le> (1 - ?u) ^ k" for k
    using u(2) by (intro zero_le_power) simp
  have big: "(a + x + ?s) * (1 + ?u) ^ Suc ?n < 2 powi 1023"
    using Cons.prems(4) by (simp add: add.assoc)
  have "a + x \<le> (a + x + ?s) * 1" using s by simp
  also have "\<dots> \<le> (a + x + ?s) * (1 + ?u) ^ Suc ?n"
    using c s p1 [of "Suc ?n"] by (intro mult_left_mono) simp_all
  finally have "\<bar>a + x\<bar> < 2 powi 1023"
    using big c by simp
  then obtain a' where a': "fl (a + x) = Fin a'"
    using fl_finite by blast
  obtain j k :: int where "a = of_int j * 2 powi (- 1074)" "x = of_int k * 2 powi (- 1074)"
    using Cons.prems(3) is_double_grid [OF dx] by blast
  then have "a + x = of_int (j + k) * 2 powi (- 1074)"
    by (rule grid_add)
  with a' have "\<bar>a' - (a + x)\<bar> \<le> \<bar>a + x\<bar> / 2 ^ 53"
    by (rule fl_rel_grid)
  then have lo: "(a + x) * (1 - ?u) \<le> a'" and hi: "a' \<le> (a + x) * (1 + ?u)"
    using c by (rule rel_error_bounds)+
  have a'0: "0 \<le> a'" using a' c by (rule fl_nonneg)
  have a'g: "\<exists>k :: int. a' = of_int k * 2 powi (- 1074)" using a' by (rule fl_grid)
  have up1: "a' + ?s \<le> (a + x + ?s) * (1 + ?u)"
    using u(1) s hi by (rule grow_upper)
  have lo1: "(a + x + ?s) * (1 - ?u) \<le> a' + ?s"
    using u(1) s lo by (rule grow_lower)
  have up2: "(a' + ?s) * (1 + ?u) ^ ?n \<le> (a + x + ?s) * (1 + ?u) ^ Suc ?n"
  proof -
    have "(a' + ?s) * (1 + ?u) ^ ?n \<le> ((a + x + ?s) * (1 + ?u)) * (1 + ?u) ^ ?n"
      using up1 p1 [of ?n] by (intro mult_right_mono) simp_all
    then show ?thesis by (simp add: mult.assoc)
  qed
  have lo2: "(a + x + ?s) * (1 - ?u) ^ Suc ?n \<le> (a' + ?s) * (1 - ?u) ^ ?n"
  proof -
    have "((a + x + ?s) * (1 - ?u)) * (1 - ?u) ^ ?n \<le> (a' + ?s) * (1 - ?u) ^ ?n"
      using lo1 p0 [of ?n] by (intro mult_right_mono) simp_all
    then show ?thesis by (simp add: mult.assoc)
  qed
  have "(a' + ?s) * (1 + ?u) ^ ?n < 2 powi 1023"
    using up2 big by simp
  with Cons.IH [OF rest a'0 a'g]
  obtain t where t: "foldl num_add (Fin a') (map Fin xs) = Fin t"
    and tl: "(a' + ?s) * (1 - ?u) ^ ?n \<le> t" and tu: "t \<le> (a' + ?s) * (1 + ?u) ^ ?n"
    by blast
  have "foldl num_add (Fin a) (map Fin (x # xs)) = Fin t"
    using a' t by simp
  moreover have "(a + sum_list (x # xs)) * (1 - ?u) ^ length (x # xs) \<le> t"
    using lo2 tl by (simp add: add.assoc)
  moreover have "t \<le> (a + sum_list (x # xs)) * (1 + ?u) ^ length (x # xs)"
    using up2 tu by (simp add: add.assoc)
  ultimately show ?case by blast
qed

lemma bernoulli_rat:
  assumes "0 \<le> (u :: rat)" and "u \<le> 1"
  shows "1 - of_nat n * u \<le> (1 - u) ^ n"
proof (induction n)
  case 0
  then show ?case by simp
next
  case (Suc n)
  have "0 \<le> of_nat n * u * u" using assms(1) by simp
  then have "1 - of_nat (Suc n) * u \<le> (1 - of_nat n * u) * (1 - u)"
    by (simp add: algebra_simps)
  also have "\<dots> \<le> (1 - u) ^ n * (1 - u)"
    using Suc.IH assms(2) by (intro mult_right_mono) simp_all
  finally show ?case by (simp add: mult.commute)
qed

lemma power_pair_le_one:
  assumes "0 \<le> (u :: rat)" and "u \<le> 1"
  shows "(1 + u) ^ n * (1 - u) ^ n \<le> 1"
proof -
  have "(1 + u) ^ n * (1 - u) ^ n = ((1 + u) * (1 - u)) ^ n"
    by (simp add: power_mult_distrib)
  also have "(1 + u) * (1 - u) = 1 - u * u"
    by (simp add: algebra_simps)
  also have "(1 - u * u) ^ n \<le> 1"
  proof (rule power_le_one)
    have "u * u \<le> 1 * 1" using assms by (intro mult_mono) simp_all
    then show "0 \<le> 1 - u * u" by simp
    show "1 - u * u \<le> 1" using assms(1) by simp
  qed
  finally show ?thesis .
qed

lemma roundoff_powers:
  assumes "n < 2 ^ 32"
  shows "1 - 1 / 2 ^ 21 \<le> (1 - unit_roundoff) ^ n"
    and "(1 + unit_roundoff) ^ n * (1 - 1 / 2 ^ 21) \<le> 1"
    and "(1 + unit_roundoff) ^ n \<le> 2"
proof -
  note u = unit_roundoff_range
  have "(of_nat n :: rat) \<le> of_nat (2 ^ 32)"
    using assms by (simp only: of_nat_le_iff)
  then have "(of_nat n :: rat) * unit_roundoff \<le> 2 ^ 32 * unit_roundoff"
    using u(1) by (intro mult_right_mono) simp_all
  also have "\<dots> = 1 / 2 ^ 21"
    by (simp add: unit_roundoff_def)
  finally have nu: "(of_nat n :: rat) * unit_roundoff \<le> 1 / 2 ^ 21" .
  have "1 - 1 / 2 ^ 21 \<le> 1 - of_nat n * unit_roundoff"
    using nu by simp
  also have "\<dots> \<le> (1 - unit_roundoff) ^ n"
    using u by (rule bernoulli_rat)
  finally show a: "1 - 1 / 2 ^ 21 \<le> (1 - unit_roundoff) ^ n" .
  have p: "0 \<le> (1 + unit_roundoff) ^ n"
    using u(1) by simp
  have "(1 + unit_roundoff) ^ n * (1 - 1 / 2 ^ 21)
          \<le> (1 + unit_roundoff) ^ n * (1 - unit_roundoff) ^ n"
    using a p by (rule mult_left_mono)
  also have "\<dots> \<le> 1"
    using u by (rule power_pair_le_one)
  finally show b: "(1 + unit_roundoff) ^ n * (1 - 1 / 2 ^ 21) \<le> 1" .
  have "(1 + unit_roundoff) ^ n * (1 / 2) \<le> (1 + unit_roundoff) ^ n * (1 - 1 / 2 ^ 21)"
    using p by (intro mult_left_mono) simp_all
  with b show "(1 + unit_roundoff) ^ n \<le> 2" by simp
qed

lemma percentage_bounds:
  assumes "0 \<le> x" and "is_double x" and "x \<le> 2 ^ 1015" and "0 < t" and "x \<le> 2 * t"
  shows "\<exists>p. num_div (num_mul (Fin x) (Fin 100)) (Fin t) = Fin p \<and> 0 \<le> p \<and>
           x * 100 / t * ((1 - unit_roundoff) * (1 - unit_roundoff)) - 2 powi (- 1075) \<le> p \<and>
           p \<le> x * 100 / t * ((1 + unit_roundoff) * (1 + unit_roundoff)) + 2 powi (- 1075)"
proof -
  let ?u = unit_roundoff
  note u = unit_roundoff_range
  have c: "0 \<le> x * 100" using assms(1) by simp
  have "x * 100 \<le> 2 ^ 1015 * 100" using assms(3) by simp
  also have "\<dots> < (2 :: rat) ^ 1023" by simp
  finally have "\<bar>x * 100\<bar> < 2 powi 1023" using c by simp
  then obtain w where w: "fl (x * 100) = Fin w"
    using fl_finite by blast
  obtain k :: int where "x = of_int k * 2 powi (- 1074)"
    using is_double_grid [OF assms(2)] by blast
  then have "x * 100 = of_int (k * 100) * 2 powi (- 1074)"
    by (rule grid_times)
  with w have "\<bar>w - x * 100\<bar> \<le> \<bar>x * 100\<bar> / 2 ^ 53"
    by (rule fl_rel_grid)
  then have wl: "x * 100 * (1 - ?u) \<le> w" and wu: "w \<le> x * 100 * (1 + ?u)"
    using c by (rule rel_error_bounds)+
  have w0: "0 \<le> w" using w c by (rule fl_nonneg)
  have q0: "0 \<le> w / t" using w0 assms(4) by simp
  have sw: "a * b / t = a / t * b" for a b :: rat
    by simp
  have "x * 100 * (1 - ?u) / t \<le> w / t"
    using wl assms(4) by (intro divide_right_mono) simp_all
  then have ql: "x * 100 / t * (1 - ?u) \<le> w / t"
    by (simp only: sw)
  have "w / t \<le> x * 100 * (1 + ?u) / t"
    using wu assms(4) by (intro divide_right_mono) simp_all
  then have qu: "w / t \<le> x * 100 / t * (1 + ?u)"
    by (simp only: sw)
  have "x * 100 / t \<le> 2 * t * 100 / t"
    using assms(4,5) by (intro divide_right_mono) simp_all
  then have "x * 100 / t \<le> 200"
    using assms(4) by simp
  then have "x * 100 / t * (1 + ?u) \<le> 200 * 2"
    using u assms(1,4) by (intro mult_mono) simp_all
  with qu have "w / t \<le> 400" by simp
  also have "\<dots> < (2 :: rat) ^ 1023" by simp
  finally have "\<bar>w / t\<bar> < 2 powi 1023" using q0 by simp
  then obtain p where p: "fl (w / t) = Fin p"
    using fl_finite by blast
  have p0: "0 \<le> p" using p q0 by (rule fl_nonneg)
  define h :: rat where "h = 2 powi (- 1075)"
  define q where "q = w / t"
  define r where "r = x * 100 / t"
  have "\<bar>p - w / t\<bar> \<le> \<bar>w / t\<bar> / 2 ^ 53 + 2 powi (- 1075)"
    using p by (rule fl_abs)
  then have e: "\<bar>p - q\<bar> \<le> q * ?u + h"
    using q0 unfolding h_def [symmetric] q_def [symmetric]
    by (simp add: unit_roundoff_def)
  have e1: "q * (1 - ?u) = q - q * ?u" and e2: "q * (1 + ?u) = q + q * ?u"
    by (simp_all add: algebra_simps)
  have pl: "q * (1 - ?u) - h \<le> p"
    using abs_le_D2 [OF e] unfolding e1 by linarith
  have pu: "p \<le> q * (1 + ?u) + h"
    using abs_le_D1 [OF e] unfolding e2 by linarith
  have "r * ((1 - ?u) * (1 - ?u)) = r * (1 - ?u) * (1 - ?u)"
    by simp
  also have "\<dots> \<le> q * (1 - ?u)"
    using ql u(2) unfolding q_def r_def by (intro mult_right_mono) simp_all
  finally have "r * ((1 - ?u) * (1 - ?u)) - h \<le> p"
    using pl by linarith
  then have lower: "x * 100 / t * ((1 - ?u) * (1 - ?u)) - 2 powi (- 1075) \<le> p"
    by (simp only: r_def h_def)
  have "q * (1 + ?u) \<le> r * (1 + ?u) * (1 + ?u)"
    using qu u(1) unfolding q_def r_def by (intro mult_right_mono) simp_all
  then have "q * (1 + ?u) \<le> r * ((1 + ?u) * (1 + ?u))"
    by (simp only: mult.assoc)
  then have "p \<le> r * ((1 + ?u) * (1 + ?u)) + h"
    using pu by linarith
  then have upper: "p \<le> x * 100 / t * ((1 + ?u) * (1 + ?u)) + 2 powi (- 1075)"
    by (simp only: r_def h_def)
  have "num_div (num_mul (Fin x) (Fin 100)) (Fin t) = Fin p"
    using w p assms(4) by simp
  with p0 lower upper show ?thesis by blast
qed

lemma member_le_sum:
  assumes "\<forall>x \<in> set xs. 0 \<le> (x :: rat)" and "y \<in> set xs"
  shows "y \<le> sum_list xs"
  using assms
proof (induction xs)
  case Nil
  then show ?case by simp
next
  case (Cons x xs)
  have s: "0 \<le> sum_list xs"
    using Cons.prems(1) by (intro sum_list_nonneg) simp
  show ?case
  proof (cases "y = x")
    case True
    with s show ?thesis by simp
  next
    case False
    with Cons have "y \<le> sum_list xs" by simp
    moreover have "0 \<le> x" using Cons.prems(1) by simp
    ultimately show ?thesis by simp
  qed
qed

lemma sum_of_bounded:
  assumes "\<forall>y \<in> set ys. \<exists>p. f y = Fin p \<and> 0 \<le> p \<and> y * c * l - h \<le> p \<and> p \<le> y * c * u + h"
  shows "\<exists>ps. map f ys = map Fin ps \<and> (\<forall>p \<in> set ps. 0 \<le> p) \<and>
           sum_list ys * c * l - of_nat (length ys) * h \<le> sum_list ps \<and>
           sum_list ps \<le> sum_list ys * c * u + of_nat (length ys) * h"
  using assms
proof (induction ys)
  case Nil
  have "map f [] = map Fin []" by simp
  then show ?case by force
next
  case (Cons y ys)
  obtain p where p: "f y = Fin p" "0 \<le> p" "y * c * l - h \<le> p" "p \<le> y * c * u + h"
    using Cons.prems by auto
  obtain ps where ps: "map f ys = map Fin ps" "\<forall>p \<in> set ps. 0 \<le> p"
    "sum_list ys * c * l - of_nat (length ys) * h \<le> sum_list ps"
    "sum_list ps \<le> sum_list ys * c * u + of_nat (length ys) * h"
    using Cons.IH Cons.prems by auto
  have "map f (y # ys) = map Fin (p # ps)"
    using p(1) ps(1) by simp
  moreover have "\<forall>p \<in> set (p # ps). 0 \<le> p"
    using p(2) ps(2) by simp
  moreover have "sum_list (y # ys) * c * l - of_nat (length (y # ys)) * h \<le> sum_list (p # ps)"
    using p(3) ps(3) by (simp add: algebra_simps)
  moreover have "sum_list (p # ps) \<le> sum_list (y # ys) * c * u + of_nat (length (y # ys)) * h"
    using p(4) ps(4) by (simp add: algebra_simps)
  ultimately show ?case by blast
qed

subsection \<open>Rounding to one decimal\<close>

text \<open>
  The number that \<^verbatim>\<open>toFixed(1)\<close> prints for a non-negative number below \<open>10\<^sup>2\<^sup>1\<close>
  has the digits of \<open>round_tenths\<close>, and is within a twentieth of the number.
\<close>

lemma round_tenths_near: "0 \<le> y \<Longrightarrow> \<bar>of_nat (round_tenths y) / 10 - y\<bar> \<le> 1 / 20"
proof -
  assume y: "0 \<le> y"
  define k where "k = \<lfloor>y * 10 + 1 / 2\<rfloor>"
  have nn: "0 \<le> k" using y by (simp add: k_def)
  have eq: "(of_nat (round_tenths y) :: rat) = of_int k"
    using nn by (simp add: round_tenths_def k_def)
  have lo: "of_int k \<le> y * 10 + 1 / 2"
    unfolding k_def by (rule of_int_floor_le)
  have hi: "y * 10 + 1 / 2 < of_int k + 1"
    unfolding k_def using floor_correct [of "y * 10 + 1 / 2"] by simp
  show ?thesis unfolding eq using lo hi by linarith
qed

lemma printed_sum_near:
  assumes "\<forall>p \<in> set ps. 0 \<le> p"
  shows "\<bar>(\<Sum>p\<leftarrow>ps. of_nat (round_tenths p) / 10) - sum_list ps\<bar> \<le> of_nat (length ps) / 20"
  using assms
proof (induction ps)
  case Nil
  then show ?case by simp
next
  case (Cons p ps)
  have h: "\<bar>of_nat (round_tenths p) / 10 - p\<bar> \<le> 1 / 20"
    using Cons.prems by (intro round_tenths_near) simp
  have ih: "\<bar>(\<Sum>p\<leftarrow>ps. of_nat (round_tenths p) / 10) - sum_list ps\<bar> \<le> of_nat (length ps) / 20"
    using Cons by simp
  have l: "(of_nat (length (p # ps)) :: rat) / 20 = 1 / 20 + of_nat (length ps) / 20"
    by (simp add: field_simps)
  have "(\<Sum>q\<leftarrow>p # ps. of_nat (round_tenths q) / 10) - sum_list (p # ps)
      = (of_nat (round_tenths p) / 10 - p)
        + ((\<Sum>q\<leftarrow>ps. of_nat (round_tenths q) / 10) - sum_list ps)"
    by simp
  then show ?case unfolding l using h ih by linarith
qed

lemma toFixed1_digits:
  assumes "0 \<le> p" and "p < 10 ^ 21"
  shows "toFixed1 ns (Fin p)
           = nat_str (round_tenths p div 10) @ ''.'' @ nat_str (round_tenths p mod 10)"
  using assms by (simp add: toFixed1_def Let_def)

subsection \<open>The claims about the chart adapter\<close>

text \<open>
  Claim C2. When the total is 0 (the total that the code computes; in particular when
  the values are non-negative and sum to 0), the percentage of every slice is 0 in the
  on-slice label formatter (which then returns the empty label), in both tooltip
  callbacks and in the legend generator (which print it as the number 0), and no
  division by zero is performed: no function returns the error \<open>DivisionByZero\<close>. The
  formatter and the tooltip callbacks return a text; so does the legend generator for
  every label whenever the chart has an element for each label.
\<close>

theorem zero_total_percentages:
  assumes "total_of data = Fin 0 \<or>
           (\<exists>xs. data = map Fin xs \<and> (\<forall>x \<in> set xs. 0 \<le> x) \<and> sum_list xs = 0)"
    and "chart_data c = Some data"
  shows
    "formatter_pct v (Some data) = Inr (Fin 0) \<and>
     formatter ns v (Some data) = Inr '''' \<and>
     fixed_pct ns val (total_of data) = Inr (Num (Fin 0)) \<and>
     percentOpts_tooltip_label ns \<lparr>label = l, parsed = val, dataset_data = Some data\<rparr>
       = Inr (l @ '': '' @ num_text ns val @ '' ('' @ ns 0 @ ''%)'') \<and>
     typeChart_tooltip_label ns \<lparr>label = l, parsed = val, dataset_data = Some data\<rparr>
       = Inr (l @ '': '' @ num_text ns val @ '' ('' @ ns 0 @ ''%)'') \<and>
     generateLabels ns c \<noteq> Inl DivisionByZero \<and>
     (length (chart_labels c) \<le> length (meta_data c) \<longrightarrow>
        (\<exists>items. generateLabels ns c = Inr items \<and>
           map legend_text items =
             map (\<lambda>(i, lbl). lbl @ '' '' @ em_dash @ '' '' @ ns 0 @ ''% (''
                                @ num_text ns (if i < length data then data ! i else Fin 0)
                                @ '')'')
               (enumerate 0 (chart_labels c))))"
proof -
  have t: "total_of data = Fin 0"
    using assms(1) total_of_zero_sum by auto
  have d: "data = (case chart_data c of None \<Rightarrow> [] | Some d \<Rightarrow> d)"
    using assms(2) by simp
  have f: "formatter_pct v (Some data) = Inr (Fin 0)"
    using t by (simp add: formatter_pct_Some truthy_def)
  have p: "fixed_pct ns val (Fin 0) = Inr (Num (Fin 0))"
    by (simp add: fixed_pct_eq truthy_def)
  have g: "\<exists>items. generateLabels ns c = Inr items \<and>
           map legend_text items =
             map (\<lambda>(i, lbl). lbl @ '' '' @ em_dash @ '' '' @ ns 0 @ ''% (''
                                @ num_text ns (if i < length data then data ! i else Fin 0)
                                @ '')'')
               (enumerate 0 (chart_labels c))"
    if "length (chart_labels c) \<le> length (meta_data c)"
    unfolding generateLabels_present [OF that d]
    using t by (simp add: case_prod_beta truthy_def num_text_def)
  show ?thesis
    using f t p g
    by (simp add: formatter_def percentOpts_tooltip_label_def typeChart_tooltip_label_def
        generateLabels_no_division_by_zero num_text_def)
qed

theorem zero_total_percentages_witness:
  "total_of [Fin 0, Fin 0] = Fin 0 \<and>
   formatter_pct (Fin 0) (Some [Fin 0, Fin 0]) = Inr (Fin 0) \<and>
   formatter whole_str (Fin 0) (Some [Fin 0, Fin 0]) = Inr '''' \<and>
   percentOpts_tooltip_label whole_str
     \<lparr>label = ''Paid'', parsed = Fin 0, dataset_data = Some [Fin 0, Fin 0]\<rparr>
     = Inr ''Paid: 0 (0%)'' \<and>
   typeChart_tooltip_label whole_str
     \<lparr>label = ''Silk'', parsed = Fin 0, dataset_data = Some [Fin 0, Fin 0]\<rparr>
     = Inr ''Silk: 0 (0%)'' \<and>
   map legend_text (projr (generateLabels whole_str
     \<lparr>chart_labels = [''Silk'', ''Cotton''], chart_data = Some [Fin 0, Fin 0],
      meta_data = [\<lparr>hidden = False\<rparr>, \<lparr>hidden = False\<rparr>],
      getStyle = (\<lambda>i. \<lparr>backgroundColor = ''teal'', borderColor = ''white'', borderWidth = 2\<rparr>)\<rparr>))
     = [''Silk '' @ em_dash @ '' 0% (0)'', ''Cotton '' @ em_dash @ '' 0% (0)'']"
proof -
  let ?c = "\<lparr>chart_labels = [''Silk'', ''Cotton''], chart_data = Some [Fin 0, Fin 0],
      meta_data = [\<lparr>hidden = False\<rparr>, \<lparr>hidden = False\<rparr>],
      getStyle = (\<lambda>i :: nat. \<lparr>backgroundColor = ''teal'', borderColor = ''white'', borderWidth = 2\<rparr>)\<rparr>"
  have t: "total_of [Fin 0, Fin 0] = Fin 0"
    by (simp add: total_of_def fl_zero)
  then have a: "total_of [Fin 0, Fin 0] = Fin 0 \<or>
           (\<exists>xs. [Fin 0, Fin 0] = map Fin xs \<and> (\<forall>x \<in> set xs. 0 \<le> x) \<and> sum_list xs = 0)"
    by simp
  have b: "chart_data ?c = Some [Fin 0, Fin 0]"
    by simp
  have e: "whole_str 0 = ''0''"
    by code_simp
  have g: "map legend_text (projr (generateLabels whole_str ?c))
     = [''Silk '' @ em_dash @ '' 0% (0)'', ''Cotton '' @ em_dash @ '' 0% (0)'']"
    by code_simp
  show ?thesis
    using zero_total_percentages [OF a b, of "Fin 0" whole_str "Fin 0" "''Paid''"]
      zero_total_percentages [OF a b, of "Fin 0" whole_str "Fin 0" "''Silk''"] t e g
    by (simp add: num_text_def)
qed

text \<open>
  Claim C3, as amended. For every non-empty sequence of fewer than \<open>2\<^sup>3\<^sup>2\<close> values (the
  limit of a JavaScript array), all of them non-negative doubles, with a sum of at most
  \<open>2\<^sup>1\<^sup>0\<^sup>1\<^sup>5\<close> and a non-zero total, the total and the percentages
  \<^verbatim>\<open>value * 100 / total\<close> that the adapter computes are finite, and the percentages
  sum to 100 within 0.05, half a unit of the one-decimal format. Each percentage is
  printed by \<^verbatim>\<open>toFixed(1)\<close> with the digits of its nearest tenth, and the printed
  numbers sum to 100 within 0.05 for each slice and 0.05 more.
\<close>

theorem percentages_sum_to_100:
  assumes "xs \<noteq> []"
    and "\<forall>x \<in> set xs. 0 \<le> x \<and> is_double x"
    and "sum_list xs \<le> 2 ^ 1015"
    and "length xs < 2 ^ 32"
    and "total_of (map Fin xs) \<noteq> Fin 0"
  shows
    "\<exists>t ps.
       total_of (map Fin xs) = Fin t \<and>
       map (\<lambda>x. formatter_pct (Fin x) (Some (map Fin xs))) xs = map (\<lambda>p. Inr (Fin p)) ps \<and>
       \<bar>sum_list ps - 100\<bar> \<le> 1 / 20 \<and>
       (\<forall>p \<in> set ps.
          toFixed1 ns (Fin p)
            = nat_str (round_tenths p div 10) @ ''.'' @ nat_str (round_tenths p mod 10)) \<and>
       \<bar>(\<Sum>p\<leftarrow>ps. of_nat (round_tenths p) / 10) - 100\<bar> \<le> of_nat (length xs + 1) / (20 :: rat)"
proof -
  let ?u = unit_roundoff
  let ?n = "length xs"
  let ?S = "sum_list xs"
  define a0 :: rat where "a0 = 1 - 1 / 2 ^ 21"
  define h :: rat where "h = 2 powi (- 1075)"
  note u = unit_roundoff_range
  note pw = roundoff_powers [OF assms(4)]
  have nonneg: "\<forall>x \<in> set xs. 0 \<le> x" and dbl: "\<forall>x \<in> set xs. 0 \<le> x \<and> is_double x"
    using assms(2) by simp_all
  have Sm: "?S \<le> 2 ^ 1015"
    using assms(3) .
  have S0: "0 \<le> ?S" using nonneg by (intro sum_list_nonneg) simp
  have n32: "(of_nat ?n :: rat) \<le> 2 ^ 32"
  proof -
    have "(of_nat ?n :: rat) \<le> of_nat (2 ^ 32)"
      using assms(4) by (simp only: of_nat_le_iff)
    then show ?thesis by simp
  qed
  have pp: "0 \<le> (1 + ?u) ^ ?n"
    using u(1) by simp
  have "(0 + ?S) * (1 + ?u) ^ ?n \<le> 2 ^ 1015 * 2"
    using Sm S0 pw(3) pp by (intro mult_mono) simp_all
  also have "\<dots> < (2 :: rat) ^ 1023" by simp
  finally have big: "(0 + ?S) * (1 + ?u) ^ ?n < 2 powi 1023" by simp
  have g0: "\<exists>k :: int. (0 :: rat) = of_int k * 2 powi (- 1074)"
    by (intro exI [of _ 0]) simp
  obtain t where t: "foldl num_add (Fin 0) (map Fin xs) = Fin t"
    and tl: "(0 + ?S) * (1 - ?u) ^ ?n \<le> t" and tu: "t \<le> (0 + ?S) * (1 + ?u) ^ ?n"
    using reduce_bounds [OF dbl _ g0 big] by auto
  have tot: "total_of (map Fin xs) = Fin t"
    using t by (simp add: total_of_def)
  have a0: "0 < a0" "1 / 2 \<le> a0" by (simp_all add: a0_def)
  have "?S * a0 \<le> ?S * (1 - ?u) ^ ?n"
    using pw(1) S0 unfolding a0_def by (rule mult_left_mono)
  with tl have lowt: "?S * a0 \<le> t" by simp
  then have "0 \<le> t"
  proof -
    have "0 \<le> ?S * a0" using S0 a0(1) by simp
    with lowt show ?thesis by simp
  qed
  moreover have "t \<noteq> 0" using assms(5) tot by simp
  ultimately have tpos: "0 < t" by simp
  have "?S * (1 / 2) \<le> ?S * a0"
    using a0(2) S0 by (rule mult_left_mono)
  with lowt have S2: "?S \<le> 2 * t" by simp
  have upt: "t * a0 \<le> ?S"
  proof -
    have "t * a0 \<le> ?S * (1 + ?u) ^ ?n * a0"
      using tu a0(1) by (intro mult_right_mono) simp_all
    also have "\<dots> = ?S * ((1 + ?u) ^ ?n * a0)" by simp
    also have "\<dots> \<le> ?S * 1"
      using pw(2) S0 unfolding a0_def by (rule mult_left_mono)
    finally show ?thesis by simp
  qed
  have ratio_hi: "?S / t * a0 \<le> 1"
  proof -
    have "?S * a0 / t \<le> t / t"
      using lowt tpos by (intro divide_right_mono) simp_all
    then show ?thesis using tpos by simp
  qed
  have ratio_lo: "a0 \<le> ?S / t"
  proof -
    have "t * a0 / t \<le> ?S / t"
      using upt tpos by (intro divide_right_mono) simp_all
    then show ?thesis using tpos by simp
  qed
  define f where "f = (\<lambda>y. num_div (num_mul (Fin y) (Fin 100)) (Fin t))"
  define L where "L = (1 - ?u) * (1 - ?u)"
  define U where "U = (1 + ?u) * (1 + ?u)"
  have each: "\<forall>y \<in> set xs. \<exists>p. f y = Fin p \<and> 0 \<le> p \<and>
                 y * (100 / t) * L - h \<le> p \<and> p \<le> y * (100 / t) * U + h"
  proof
    fix y assume y: "y \<in> set xs"
    have "y \<le> ?S" using nonneg y by (rule member_le_sum)
    with S2 have "y \<le> 2 * t" by simp
    moreover have "y \<le> 2 ^ 1015" using \<open>y \<le> ?S\<close> Sm by simp
    moreover have "0 \<le> y" "is_double y" using assms(2) y by simp_all
    ultimately show "\<exists>p. f y = Fin p \<and> 0 \<le> p \<and>
                 y * (100 / t) * L - h \<le> p \<and> p \<le> y * (100 / t) * U + h"
      using percentage_bounds [of y t] tpos
      by (simp add: f_def L_def U_def h_def)
  qed
  obtain ps where ps: "map f xs = map Fin ps" and ps0: "\<forall>p \<in> set ps. 0 \<le> p"
    and psl: "?S * (100 / t) * L - of_nat ?n * h \<le> sum_list ps"
    and psu: "sum_list ps \<le> ?S * (100 / t) * U + of_nat ?n * h"
    using sum_of_bounded [OF each] by blast
  have len: "length ps = ?n"
    using ps by (metis length_map)
  have hsmall: "of_nat ?n * h \<le> 1 / 256"
  proof -
    have "h \<le> 2 powi (- 40)"
      unfolding h_def by (intro power_int_increasing) simp_all
    then have "h \<le> 1 / 2 ^ 40" by simp
    moreover have "(0 :: rat) \<le> h" by (simp add: h_def)
    ultimately have "of_nat ?n * h \<le> 2 ^ 32 * (1 / 2 ^ 40)"
      using n32 by (intro mult_mono) simp_all
    then show ?thesis by simp
  qed
  have L0: "0 \<le> L" and U0: "0 \<le> U"
    using u by (simp_all add: L_def U_def)
  have upper: "sum_list ps \<le> 100 + 1 / 20"
  proof -
    have "?S * (100 / t) * U * a0 = (?S / t * a0) * (100 * U)" by simp
    also have "\<dots> \<le> 1 * (100 * U)"
      using ratio_hi U0 by (intro mult_right_mono) simp_all
    finally have "?S * (100 / t) * U * a0 \<le> 100 * U" by simp
    moreover have "100 * U + 1 / 256 * a0 \<le> (100 + 1 / 20) * a0"
      by (simp add: U_def a0_def unit_roundoff_def)
    moreover have "of_nat ?n * h * a0 \<le> 1 / 256 * a0"
      using hsmall a0(1) by (intro mult_right_mono) simp_all
    moreover have "sum_list ps * a0 \<le> (?S * (100 / t) * U + of_nat ?n * h) * a0"
      using psu a0(1) by (intro mult_right_mono) simp_all
    ultimately have "sum_list ps * a0 \<le> (100 + 1 / 20) * a0"
      by (simp add: algebra_simps)
    then show ?thesis using a0(1) by simp
  qed
  have lower: "100 - 1 / 20 \<le> sum_list ps"
  proof -
    have "a0 * (100 * L) \<le> ?S / t * (100 * L)"
      using ratio_lo L0 by (intro mult_right_mono) simp_all
    also have "\<dots> = ?S * (100 / t) * L" by simp
    finally have "a0 * (100 * L) \<le> ?S * (100 / t) * L" .
    moreover have "100 - 1 / 20 \<le> a0 * (100 * L) - 1 / 256"
      by (simp add: L_def a0_def unit_roundoff_def)
    ultimately show ?thesis using psl hsmall by linarith
  qed
  have near: "\<bar>sum_list ps - 100\<bar> \<le> 1 / 20"
    using upper lower by linarith
  have digits: "\<forall>p \<in> set ps.
          toFixed1 ns (Fin p)
            = nat_str (round_tenths p div 10) @ ''.'' @ nat_str (round_tenths p mod 10)"
  proof
    fix p assume p: "p \<in> set ps"
    have "p \<le> sum_list ps" using ps0 p by (rule member_le_sum)
    with upper have "p < 10 ^ 21" by simp
    moreover have "0 \<le> p" using ps0 p by simp
    ultimately show "toFixed1 ns (Fin p)
            = nat_str (round_tenths p div 10) @ ''.'' @ nat_str (round_tenths p mod 10)"
      by (intro toFixed1_digits)
  qed
  have printed: "\<bar>(\<Sum>p\<leftarrow>ps. of_nat (round_tenths p) / 10) - 100\<bar> \<le> of_nat (?n + 1) / (20 :: rat)"
  proof -
    have "\<bar>(\<Sum>p\<leftarrow>ps. of_nat (round_tenths p) / 10) - sum_list ps\<bar> \<le> of_nat ?n / 20"
      using printed_sum_near [OF ps0] len by simp
    moreover have "(of_nat (?n + 1) :: rat) / 20 = of_nat ?n / 20 + 1 / 20"
      by (simp add: field_simps)
    ultimately show ?thesis using near by linarith
  qed
  have "map (\<lambda>x. formatter_pct (Fin x) (Some (map Fin xs))) xs = map (\<lambda>x. Inr (f x)) xs"
    using tpos by (simp add: formatter_pct_Some tot truthy_def f_def)
  also have "\<dots> = map Inr (map f xs)" by simp
  also have "\<dots> = map (\<lambda>p. Inr (Fin p)) ps" by (simp add: ps)
  finally have pcts: "map (\<lambda>x. formatter_pct (Fin x) (Some (map Fin xs))) xs
                        = map (\<lambda>p. Inr (Fin p)) ps" .
  from tot pcts near digits printed show ?thesis by blast
qed

theorem percentages_sum_to_100_witness:
  "is_double 1 \<and>
   total_of (map Fin [1, 1, 1]) = Fin 3 \<and>
   map (\<lambda>x. formatter_pct (Fin x) (Some (map Fin [1, 1, 1]))) [1, 1, 1]
     = map (\<lambda>p. Inr (Fin p))
         [4691249611844267 / 140737488355328, 4691249611844267 / 140737488355328,
          4691249611844267 / 140737488355328] \<and>
   \<bar>sum_list [4691249611844267 / 140737488355328, 4691249611844267 / 140737488355328,
              4691249611844267 / 140737488355328] - (100 :: rat)\<bar> \<le> 1 / 20 \<and>
   toFixed1 whole_str (Fin (4691249611844267 / 140737488355328)) = ''33.3'' \<and>
   (\<exists>t ps.
       total_of (map Fin [1, 1, 1]) = Fin t \<and>
       map (\<lambda>x. formatter_pct (Fin x) (Some (map Fin [1, 1, 1]))) [1, 1, 1]
         = map (\<lambda>p. Inr (Fin p)) ps \<and>
       \<bar>sum_list ps - 100\<bar> \<le> 1 / 20 \<and>
       \<bar>(\<Sum>p\<leftarrow>ps. of_nat (round_tenths p) / 10) - 100\<bar> \<le> of_nat (length [1, 1, 1 :: rat] + 1) / (20 :: rat))"
proof -
  have d: "is_double 1"
    unfolding is_double_def by code_simp
  have t: "total_of (map Fin [1, 1, 1]) = Fin 3"
    by code_simp
  have a: "[1, 1, 1] \<noteq> ([] :: rat list)"
    and b: "\<forall>x \<in> set [1, 1, 1 :: rat]. 0 \<le> x \<and> is_double x"
    and c: "sum_list [1, 1, 1 :: rat] \<le> 2 ^ 1015"
    and l: "length [1, 1, 1 :: rat] < 2 ^ 32"
    and z: "total_of (map Fin [1, 1, 1]) \<noteq> Fin 0"
    using d t by simp_all
  have e: "map (\<lambda>x. formatter_pct (Fin x) (Some (map Fin [1, 1, 1]))) [1, 1, 1]
     = map (\<lambda>p. Inr (Fin p))
         [4691249611844267 / 140737488355328, 4691249611844267 / 140737488355328,
          4691249611844267 / 140737488355328]"
    by code_simp
  have f: "toFixed1 whole_str (Fin (4691249611844267 / 140737488355328)) = ''33.3''"
    by code_simp
  have g: "\<bar>sum_list [4691249611844267 / 140737488355328, 4691249611844267 / 140737488355328,
              4691249611844267 / 140737488355328] - (100 :: rat)\<bar> \<le> 1 / 20"
    by simp
  have "\<exists>t ps.
       total_of (map Fin [1, 1, 1]) = Fin t \<and>
       map (\<lambda>x. formatter_pct (Fin x) (Some (map Fin [1, 1, 1]))) [1, 1, 1]
         = map (\<lambda>p. Inr (Fin p)) ps \<and>
       \<bar>sum_list ps - 100\<bar> \<le> 1 / 20 \<and>
       \<bar>(\<Sum>p\<leftarrow>ps. of_nat (round_tenths p) / 10) - 100\<bar> \<le> of_nat (length [1, 1, 1 :: rat] + 1) / (20 :: rat)"
    using percentages_sum_to_100 [OF a b c l z, of whole_str] by blast
  with d t e f g show ?thesis by blast
qed

text \<open>
  The claim as stated fails where the doubles run out. For the two values \<open>2\<^sup>1\<^sup>0\<^sup>2\<^sup>0\<close> the
  total is finite and not zero, but \<^verbatim>\<open>value * 100\<close> overflows and the percentage
  of each is \<^verbatim>\<open>Infinity\<close>. For the values \<open>2\<^sup>5\<^sup>3\<close>, 3 and \<open>-2\<^sup>5\<^sup>3\<close> the total is computed
  as 4, and the percentages sum to 75.
\<close>

theorem percentages_off_100:
  "total_of [Fin (2 ^ 1020), Fin (2 ^ 1020)] = Fin (2 ^ 1021) \<and>
   formatter_pct (Fin (2 ^ 1020)) (Some [Fin (2 ^ 1020), Fin (2 ^ 1020)]) = Inr PInf \<and>
   total_of [Fin (2 ^ 53), Fin 3, Fin (- (2 ^ 53))] = Fin 4 \<and>
   formatter_pct (Fin (2 ^ 53)) (Some [Fin (2 ^ 53), Fin 3, Fin (- (2 ^ 53))])
     = Inr (Fin 225179981368524800) \<and>
   formatter_pct (Fin 3) (Some [Fin (2 ^ 53), Fin 3, Fin (- (2 ^ 53))])
     = Inr (Fin 75) \<and>
   formatter_pct (Fin (- (2 ^ 53))) (Some [Fin (2 ^ 53), Fin 3, Fin (- (2 ^ 53))])
     = Inr (Fin (- 225179981368524800)) \<and>
   \<not> \<bar>(225179981368524800 + 75 + - 225179981368524800) - (100 :: rat)\<bar> \<le> 1 / 20"
proof -
  have p: "fl (2 ^ 1020) = Fin (2 ^ 1020)" and q: "fl (2 ^ 1021) = Fin (2 ^ 1021)"
    using fl_pow2 [of 1020] fl_pow2 [of 1021] by simp_all
  have o: "fl (2 ^ 1020 * 100) = PInf"
    by (rule fl_overflow) simp
  have s: "(2 :: rat) ^ 1020 + 2 ^ 1020 = 2 ^ 1021"
    by simp
  have t1: "total_of [Fin (2 ^ 1020), Fin (2 ^ 1020)] = Fin (2 ^ 1021)"
    unfolding total_of_def using p q by (simp add: s)
  have m1: "formatter_pct (Fin (2 ^ 1020)) (Some [Fin (2 ^ 1020), Fin (2 ^ 1020)]) = Inr PInf"
    unfolding formatter_pct_Some t1 using o
    by (simp add: truthy_def infinity_def negative_def)
  have t2: "total_of [Fin (2 ^ 53), Fin 3, Fin (- (2 ^ 53))] = Fin 4"
    by code_simp
  have m2: "formatter_pct (Fin (2 ^ 53)) (Some [Fin (2 ^ 53), Fin 3, Fin (- (2 ^ 53))])
     = Inr (Fin 225179981368524800)"
    "formatter_pct (Fin 3) (Some [Fin (2 ^ 53), Fin 3, Fin (- (2 ^ 53))])
     = Inr (Fin 75)"
    "formatter_pct (Fin (- (2 ^ 53))) (Some [Fin (2 ^ 53), Fin 3, Fin (- (2 ^ 53))])
     = Inr (Fin (- 225179981368524800))"
    by code_simp+
  show ?thesis
    using t1 m1 t2 m2 by simp
qed

text \<open>
  Claim C4, as amended. On the donut, for every slice and every total that is not zero
  (nor \<^verbatim>\<open>NaN\<close>), the on-slice label is the text of the formatter, and the formatter
  returns the empty string exactly when the slice's percentage, the double
  \<^verbatim>\<open>value * 100 / total\<close>, is not at least 3: for a finite percentage, exactly when it
  is below 3. On the pie no on-slice label is drawn, whatever the percentage. For every
  slice the tooltip text of either chart contains the slice's percentage, printed by
  \<^verbatim>\<open>toFixed(1)\<close>.
\<close>

theorem label_threshold:
  assumes "truthy (total_of data)"
  shows
    "formatter_pct v (Some data) = Inr (num_div (num_mul v (Fin 100)) (total_of data)) \<and>
     on_slice_label ns donut_datalabels v (Some data)
       = Inr (Some (if num_ge (num_div (num_mul v (Fin 100)) (total_of data)) (Fin 3)
                    then toFixed1 ns (num_div (num_mul v (Fin 100)) (total_of data)) @ ''%''
                    else '''')) \<and>
     (formatter ns v (Some data) = Inr '''')
       = (\<not> num_ge (num_div (num_mul v (Fin 100)) (total_of data)) (Fin 3)) \<and>
     (\<forall>p. num_div (num_mul v (Fin 100)) (total_of data) = Fin p \<longrightarrow>
        (formatter ns v (Some data) = Inr '''') = (p < 3)) \<and>
     on_slice_label ns typeChart_datalabels v (Some data) = Inr None \<and>
     percentOpts_tooltip_label ns \<lparr>label = l, parsed = val, dataset_data = Some data\<rparr>
       = Inr (l @ '': '' @ num_text ns val @ '' (''
               @ toFixed1 ns (num_div (num_mul val (Fin 100)) (total_of data)) @ ''%)'') \<and>
     typeChart_tooltip_label ns \<lparr>label = l, parsed = val, dataset_data = Some data\<rparr>
       = Inr (l @ '': '' @ num_text ns val @ '' (''
               @ toFixed1 ns (num_div (num_mul val (Fin 100)) (total_of data)) @ ''%)'')"
  using assms
  by (auto simp: formatter_def formatter_pct_Some on_slice_label_def donut_datalabels_def
      typeChart_datalabels_def percentOpts_tooltip_label_def typeChart_tooltip_label_def
      fixed_pct_eq not_le)

theorem label_threshold_witness:
  "truthy (total_of [Fin 61, Fin 1939]) \<and>
   formatter_pct (Fin 61) (Some [Fin 61, Fin 1939])
     = Inr (Fin (3433994715870003 / 1125899906842624)) \<and>
   on_slice_label whole_str donut_datalabels (Fin 61) (Some [Fin 61, Fin 1939])
     = Inr (Some ''3.0%'') \<and>
   on_slice_label whole_str donut_datalabels (Fin 59) (Some [Fin 59, Fin 1941])
     = Inr (Some '''') \<and>
   on_slice_label whole_str typeChart_datalabels (Fin 61) (Some [Fin 61, Fin 1939])
     = Inr None \<and>
   percentOpts_tooltip_label whole_str
     \<lparr>label = ''Pending'', parsed = Fin 3, dataset_data = Some [Fin 3, Fin 1997]\<rparr>
     = Inr ''Pending: 3 (0.1%)'' \<and>
   typeChart_tooltip_label whole_str
     \<lparr>label = ''Silk'', parsed = Fin 3, dataset_data = Some [Fin 3, Fin 1997]\<rparr>
     = Inr ''Silk: 3 (0.1%)''"
proof -
  have a: "truthy (total_of [Fin 61, Fin 1939])"
    and b: "truthy (total_of [Fin 59, Fin 1941])"
    and c: "truthy (total_of [Fin 3, Fin 1997])"
    by code_simp+
  have e: "formatter_pct (Fin 61) (Some [Fin 61, Fin 1939])
             = Inr (Fin (3433994715870003 / 1125899906842624))"
    "on_slice_label whole_str donut_datalabels (Fin 61) (Some [Fin 61, Fin 1939])
       = Inr (Some ''3.0%'')"
    "on_slice_label whole_str donut_datalabels (Fin 59) (Some [Fin 59, Fin 1941])
       = Inr (Some '''')"
    "percentOpts_tooltip_label whole_str
       \<lparr>label = ''Pending'', parsed = Fin 3, dataset_data = Some [Fin 3, Fin 1997]\<rparr>
       = Inr ''Pending: 3 (0.1%)''"
    "typeChart_tooltip_label whole_str
       \<lparr>label = ''Silk'', parsed = Fin 3, dataset_data = Some [Fin 3, Fin 1997]\<rparr>
       = Inr ''Silk: 3 (0.1%)''"
    by code_simp+
  show ?thesis
    using label_threshold [OF a, of "Fin 61" whole_str "''Silk''" "Fin 61"]
      label_threshold [OF b, of "Fin 59" whole_str "''Silk''" "Fin 59"]
      label_threshold [OF c, of "Fin 3" whole_str "''Pending''" "Fin 3"] a e
    by simp
qed

text \<open>
  The claim as stated fails on the pie: the slice with value 1 of the values 1 and 1 has
  the percentage 50, not below 3, and has no on-slice label; the donut shows
  \<^verbatim>\<open>50.0%\<close> for it.
\<close>

theorem pie_label_always_hidden:
  "formatter_pct (Fin 1) (Some [Fin 1, Fin 1]) = Inr (Fin 50) \<and>
   \<not> (50 :: rat) < 3 \<and>
   on_slice_label whole_str typeChart_datalabels (Fin 1) (Some [Fin 1, Fin 1]) = Inr None \<and>
   on_slice_label whole_str donut_datalabels (Fin 1) (Some [Fin 1, Fin 1]) = Inr (Some ''50.0%'')"
  by code_simp

text \<open>
  Claim C5, as amended. For every slice the legend text of the pie's legend generator is
  \<^verbatim>\<open>{label} -- {pct}% ({value})\<close> with an em dash, and the tooltip text of both
  tooltip callbacks is \<^verbatim>\<open>{label}: {value} ({pct}%)\<close>, where \<^verbatim>\<open>pct\<close> is the slice's
  percentage of the total as the code prints it (the double \<^verbatim>\<open>val * 100 / total\<close>
  through \<^verbatim>\<open>toFixed(1)\<close>, or the number 0 when the total is 0) and \<^verbatim>\<open>value\<close> is the
  slice's raw value. The chart is one that Chart.js builds, with an element for each
  value, and every label has a value.
\<close>

theorem text_formats:
  assumes "chart_data c = Some data"
    and "length (meta_data c) = length data"
    and "length (chart_labels c) \<le> length data"
  shows
    "(\<exists>items. generateLabels ns c = Inr items \<and>
        length items = length (chart_labels c) \<and>
        (\<forall>i < length (chart_labels c).
           legend_text (items ! i) =
             chart_labels c ! i @ '' '' @ em_dash @ '' ''
               @ (if truthy (total_of data)
                  then toFixed1 ns (num_div (num_mul (data ! i) (Fin 100)) (total_of data))
                  else ns 0)
               @ ''% ('' @ num_text ns (data ! i) @ '')'')) \<and>
     percentOpts_tooltip_label ns \<lparr>label = l, parsed = val, dataset_data = Some data\<rparr>
       = Inr (l @ '': '' @ num_text ns val @ '' (''
               @ (if truthy (total_of data)
                  then toFixed1 ns (num_div (num_mul val (Fin 100)) (total_of data))
                  else ns 0)
               @ ''%)'') \<and>
     typeChart_tooltip_label ns \<lparr>label = l, parsed = val, dataset_data = Some data\<rparr>
       = Inr (l @ '': '' @ num_text ns val @ '' (''
               @ (if truthy (total_of data)
                  then toFixed1 ns (num_div (num_mul val (Fin 100)) (total_of data))
                  else ns 0)
               @ ''%)'')"
proof -
  have d: "data = (case chart_data c of None \<Rightarrow> [] | Some d \<Rightarrow> d)"
    using assms(1) by simp
  have m: "length (chart_labels c) \<le> length (meta_data c)"
    using assms(2,3) by simp
  have legend: "\<exists>items. generateLabels ns c = Inr items \<and>
        length items = length (chart_labels c) \<and>
        (\<forall>i < length (chart_labels c).
           legend_text (items ! i) =
             chart_labels c ! i @ '' '' @ em_dash @ '' ''
               @ (if truthy (total_of data)
                  then toFixed1 ns (num_div (num_mul (data ! i) (Fin 100)) (total_of data))
                  else ns 0)
               @ ''% ('' @ num_text ns (data ! i) @ '')'')"
    unfolding generateLabels_present [OF m d]
    using assms(3) by (simp add: nth_enumerate_eq num_text_def)
  have tips: "percentOpts_tooltip_label ns \<lparr>label = l, parsed = val, dataset_data = Some data\<rparr>
       = Inr (l @ '': '' @ num_text ns val @ '' (''
               @ (if truthy (total_of data)
                  then toFixed1 ns (num_div (num_mul val (Fin 100)) (total_of data))
                  else ns 0)
               @ ''%)'')"
    "typeChart_tooltip_label ns \<lparr>label = l, parsed = val, dataset_data = Some data\<rparr>
       = Inr (l @ '': '' @ num_text ns val @ '' (''
               @ (if truthy (total_of data)
                  then toFixed1 ns (num_div (num_mul val (Fin 100)) (total_of data))
                  else ns 0)
               @ ''%)'')"
    by (simp_all add: percentOpts_tooltip_label_def typeChart_tooltip_label_def fixed_pct_eq
        num_text_def)
  from legend tips show ?thesis by blast
qed

theorem text_formats_witness:
  "generateLabels whole_str
     \<lparr>chart_labels = [''Silk'', ''Cotton''], chart_data = Some [Fin 7, Fin 1993],
      meta_data = [\<lparr>hidden = False\<rparr>, \<lparr>hidden = True\<rparr>],
      getStyle = (\<lambda>i. \<lparr>backgroundColor = ''teal'', borderColor = ''white'', borderWidth = 2\<rparr>)\<rparr>
     = Inr [\<lparr>legend_text = ''Silk '' @ em_dash @ '' 0.3% (7)'', fillStyle = ''teal'',
              strokeStyle = ''white'', lineWidth = 2, item_hidden = False, index = 0\<rparr>,
            \<lparr>legend_text = ''Cotton '' @ em_dash @ '' 99.7% (1993)'', fillStyle = ''teal'',
              strokeStyle = ''white'', lineWidth = 2, item_hidden = True, index = 1\<rparr>] \<and>
   percentOpts_tooltip_label whole_str
     \<lparr>label = ''Paid'', parsed = Fin 300, dataset_data = Some [Fin 300, Fin 50]\<rparr>
     = Inr ''Paid: 300 (85.7%)'' \<and>
   typeChart_tooltip_label whole_str
     \<lparr>label = ''Silk'', parsed = Fin 7, dataset_data = Some [Fin 7, Fin 1993]\<rparr>
     = Inr ''Silk: 7 (0.3%)''"
proof -
  let ?c = "\<lparr>chart_labels = [''Silk'', ''Cotton''], chart_data = Some [Fin 7, Fin 1993],
      meta_data = [\<lparr>hidden = False\<rparr>, \<lparr>hidden = True\<rparr>],
      getStyle = (\<lambda>i :: nat. \<lparr>backgroundColor = ''teal'', borderColor = ''white'', borderWidth = 2\<rparr>)\<rparr>"
  have a: "chart_data ?c = Some [Fin 7, Fin 1993]"
    and b: "length (meta_data ?c) = length [Fin 7, Fin 1993]"
    and l: "length (chart_labels ?c) \<le> length [Fin 7, Fin 1993]"
    by simp_all
  have g: "generateLabels whole_str ?c
     = Inr [\<lparr>legend_text = ''Silk '' @ em_dash @ '' 0.3% (7)'', fillStyle = ''teal'',
              strokeStyle = ''white'', lineWidth = 2, item_hidden = False, index = 0\<rparr>,
            \<lparr>legend_text = ''Cotton '' @ em_dash @ '' 99.7% (1993)'', fillStyle = ''teal'',
              strokeStyle = ''white'', lineWidth = 2, item_hidden = True, index = 1\<rparr>]"
    by code_simp
  have e: "percentOpts_tooltip_label whole_str
       \<lparr>label = ''Paid'', parsed = Fin 300, dataset_data = Some [Fin 300, Fin 50]\<rparr>
       = Inr ''Paid: 300 (85.7%)''"
    "typeChart_tooltip_label whole_str
       \<lparr>label = ''Silk'', parsed = Fin 7, dataset_data = Some [Fin 7, Fin 1993]\<rparr>
       = Inr ''Silk: 7 (0.3%)''"
    by code_simp+
  show ?thesis
    using text_formats [OF a b l, of whole_str "''Silk''" "Fin 7"] e g
    by simp
qed

text \<open>
  The claim as stated fails on the tooltip text: for the slice \<^verbatim>\<open>Silk\<close> with value
  300 of the values 300 and 50, both callbacks return \<^verbatim>\<open>Silk: 300 (85.7%)\<close>, which
  is not the text in the legend's format.
\<close>

theorem tooltip_format_differs:
  "typeChart_tooltip_label whole_str
     \<lparr>label = ''Silk'', parsed = Fin 300, dataset_data = Some [Fin 300, Fin 50]\<rparr>
     = Inr ''Silk: 300 (85.7%)'' \<and>
   percentOpts_tooltip_label whole_str
     \<lparr>label = ''Silk'', parsed = Fin 300, dataset_data = Some [Fin 300, Fin 50]\<rparr>
     = Inr ''Silk: 300 (85.7%)'' \<and>
   ''Silk: 300 (85.7%)'' \<noteq> ''Silk '' @ em_dash @ '' 85.7% (300)''"
  by code_simp

text \<open>
  Claim C6, as amended. The adapter compares no lengths. On a chart that Chart.js builds
  (an element for each value), with at least as many values as labels, equal in number
  or not, the legend generator raises no error and returns exactly one legend item for
  each label, in the order of the labels, made from that label and from the value, the
  style and the element at the same index. With more labels than values it ends with a
  \<^verbatim>\<open>TypeError\<close>.
\<close>

theorem legend_without_length_check:
  assumes "data = (case chart_data c of None \<Rightarrow> [] | Some d \<Rightarrow> d)"
    and "length (meta_data c) = length data"
  shows
    "(length (chart_labels c) \<le> length data \<longrightarrow>
        generateLabels ns c =
          Inr (map (\<lambda>i.
                 \<lparr>legend_text =
                    chart_labels c ! i @ '' '' @ em_dash @ '' ''
                      @ (if truthy (total_of data)
                         then toFixed1 ns
                           (num_div (num_mul (data ! i) (Fin 100)) (total_of data))
                         else ns 0)
                      @ ''% ('' @ num_text ns (data ! i) @ '')'',
                  fillStyle = backgroundColor (getStyle c i),
                  strokeStyle = borderColor (getStyle c i),
                  lineWidth = borderWidth (getStyle c i),
                  item_hidden = (isNaN (data ! i) \<or> hidden (meta_data c ! i)),
                  index = i\<rparr>)
               [0..<length (chart_labels c)])) \<and>
     (length data < length (chart_labels c) \<longrightarrow> generateLabels ns c = Inl TypeError)"
proof (intro conjI impI)
  assume l: "length (chart_labels c) \<le> length data"
  then have m: "length (chart_labels c) \<le> length (meta_data c)"
    using assms(2) by simp
  show "generateLabels ns c =
          Inr (map (\<lambda>i.
                 \<lparr>legend_text =
                    chart_labels c ! i @ '' '' @ em_dash @ '' ''
                      @ (if truthy (total_of data)
                         then toFixed1 ns
                           (num_div (num_mul (data ! i) (Fin 100)) (total_of data))
                         else ns 0)
                      @ ''% ('' @ num_text ns (data ! i) @ '')'',
                  fillStyle = backgroundColor (getStyle c i),
                  strokeStyle = borderColor (getStyle c i),
                  lineWidth = borderWidth (getStyle c i),
                  item_hidden = (isNaN (data ! i) \<or> hidden (meta_data c ! i)),
                  index = i\<rparr>)
               [0..<length (chart_labels c)])"
    unfolding generateLabels_present [OF m assms(1)] map_enumerate
    using l by (simp add: num_text_def)
next
  assume "length data < length (chart_labels c)"
  then show "generateLabels ns c = Inl TypeError"
    by (rule generateLabels_missing_element [OF assms])
qed

theorem legend_without_length_check_witness:
  "generateLabels whole_str
     \<lparr>chart_labels = [''Silk'', ''Cotton''], chart_data = Some [Fin 1, Fin 2, Fin 1],
      meta_data = [\<lparr>hidden = False\<rparr>, \<lparr>hidden = False\<rparr>, \<lparr>hidden = False\<rparr>],
      getStyle = (\<lambda>i. \<lparr>backgroundColor = ''teal'', borderColor = ''white'', borderWidth = 2\<rparr>)\<rparr>
     = Inr [\<lparr>legend_text = ''Silk '' @ em_dash @ '' 25.0% (1)'', fillStyle = ''teal'',
              strokeStyle = ''white'', lineWidth = 2, item_hidden = False, index = 0\<rparr>,
            \<lparr>legend_text = ''Cotton '' @ em_dash @ '' 50.0% (2)'', fillStyle = ''teal'',
              strokeStyle = ''white'', lineWidth = 2, item_hidden = False, index = 1\<rparr>] \<and>
   generateLabels whole_str
     \<lparr>chart_labels = [''Silk'', ''Cotton''], chart_data = Some [Fin 1],
      meta_data = [\<lparr>hidden = False\<rparr>],
      getStyle = (\<lambda>i. \<lparr>backgroundColor = ''teal'', borderColor = ''white'', borderWidth = 2\<rparr>)\<rparr>
     = Inl TypeError"
proof -
  let ?c = "\<lparr>chart_labels = [''Silk'', ''Cotton''], chart_data = Some [Fin 1, Fin 2, Fin 1],
      meta_data = [\<lparr>hidden = False\<rparr>, \<lparr>hidden = False\<rparr>, \<lparr>hidden = False\<rparr>],
      getStyle = (\<lambda>i :: nat. \<lparr>backgroundColor = ''teal'', borderColor = ''white'', borderWidth = 2\<rparr>)\<rparr>"
  let ?d = "\<lparr>chart_labels = [''Silk'', ''Cotton''], chart_data = Some [Fin 1],
      meta_data = [\<lparr>hidden = False\<rparr>],
      getStyle = (\<lambda>i :: nat. \<lparr>backgroundColor = ''teal'', borderColor = ''white'', borderWidth = 2\<rparr>)\<rparr>"
  have a: "[Fin 1, Fin 2, Fin 1] = (case chart_data ?c of None \<Rightarrow> [] | Some d \<Rightarrow> d)"
    and b: "length (meta_data ?c) = length [Fin 1, Fin 2, Fin 1]"
    and a': "[Fin 1] = (case chart_data ?d of None \<Rightarrow> [] | Some d \<Rightarrow> d)"
    and b': "length (meta_data ?d) = length [Fin 1]"
    by simp_all
  have g: "generateLabels whole_str ?c
     = Inr [\<lparr>legend_text = ''Silk '' @ em_dash @ '' 25.0% (1)'', fillStyle = ''teal'',
              strokeStyle = ''white'', lineWidth = 2, item_hidden = False, index = 0\<rparr>,
            \<lparr>legend_text = ''Cotton '' @ em_dash @ '' 50.0% (2)'', fillStyle = ''teal'',
              strokeStyle = ''white'', lineWidth = 2, item_hidden = False, index = 1\<rparr>]"
    by code_simp
  show ?thesis
    using legend_without_length_check [OF a b, of whole_str]
      legend_without_length_check [OF a' b', of whole_str] g
    by simp
qed

text \<open>
  The claim as stated fails: with one label and two values the legend generator, the
  on-slice label formatter and the tooltip callback all produce their output.
\<close>

theorem mismatched_lengths_give_output:
  "length [''Silk''] \<noteq> length [Fin 3, Fin 1] \<and>
   generateLabels whole_str
     \<lparr>chart_labels = [''Silk''], chart_data = Some [Fin 3, Fin 1],
      meta_data = [\<lparr>hidden = False\<rparr>, \<lparr>hidden = False\<rparr>],
      getStyle = (\<lambda>i. \<lparr>backgroundColor = ''teal'', borderColor = ''white'', borderWidth = 2\<rparr>)\<rparr>
     = Inr [\<lparr>legend_text = ''Silk '' @ em_dash @ '' 75.0% (3)'', fillStyle = ''teal'',
              strokeStyle = ''white'', lineWidth = 2, item_hidden = False, index = 0\<rparr>] \<and>
   formatter whole_str (Fin 3) (Some [Fin 3, Fin 1]) = Inr ''75.0%'' \<and>
   typeChart_tooltip_label whole_str
     \<lparr>label = ''Silk'', parsed = Fin 3, dataset_data = Some [Fin 3, Fin 1]\<rparr>
     = Inr ''Silk: 3 (75.0%)''"
  by code_simp

end
